theory Spec2Isabelle
  imports Main "HOL-Library.Word"
begin

unbundle bit_operations_syntax

section \<open>The tsz reader iterator (encoding/tsz/iterator.go)\<close>

text \<open>
  The iterator decodes a compressed stream of datapoints. Its code is embedded function by
  function: every method of \<^verbatim>\<open>readerIterator\<close> takes the iterator record and returns the
  updated record next to its result. Collaborators whose code is not part of the two source
  files are either modelled from the specification (the bit stream) or taken as parameters
  (the time-unit table, the initial-time-unit policy, the zero counting helper).
\<close>

subsection \<open>Data\<close>

type_synonym uint64 = "64 word"

text \<open>\<^verbatim>\<open>time.Duration\<close> is an int64 count of nanoseconds: a 64-bit word read with \<open>sint\<close>,
  whose addition and multiplication wrap as Go's do.\<close>
type_synonym Duration = "64 word"

text \<open>\<^verbatim>\<open>time.Time\<close> as the number of nanoseconds since its zero instant (January 1, year 1,
  UTC), so that \<^verbatim>\<open>IsZero\<close> is equality with 0. The instants reached here are sums of 64-bit
  quantities; the seconds counter of \<^verbatim>\<open>time.Time\<close> is taken to be wide enough for them.\<close>
type_synonym Time = int

text \<open>The unit code is what \<^verbatim>\<open>readBits(8)\<close> yields, converted to \<^verbatim>\<open>xtime.Unit\<close>.\<close>
type_synonym Unit = "8 word"

text \<open>A marker value is the low \<^verbatim>\<open>NumValueBits\<close> bits of the peeked word.\<close>
type_synonym Marker = "64 word"

type_synonym Annotation = "8 word list"

text \<open>The bytes an \<^verbatim>\<open>io.Reader\<close> will deliver.\<close>
type_synonym Reader = "8 word list"

text \<open>The bits not yet consumed, most significant bit of each byte first.\<close>
type_synonym istream = "bool list"

datatype error =
    UnexpectedEof
  | VarintOverflow
  | SchemeMissing Unit
  | InvalidAnnotationLength "64 word"
  | UnrecognizedTimeUnit

record Bucket =
  Opcode :: uint64
  NumValueBits :: int

record TimeEncodingScheme =
  ZeroBucket :: Bucket
  Buckets :: "Bucket list"
  DefaultBucket :: Bucket

record MarkerEncodingScheme =
  NumOpcodeBits :: int
  mesNumValueBits :: int
  mesOpcode :: uint64
  EndOfStream :: Marker
  Annotation :: Marker
  TimeUnit :: Marker

record Options =
  GetTimeEncodingSchemes :: "Unit \<rightharpoonup> TimeEncodingScheme"
  GetMarkerEncodingScheme :: MarkerEncodingScheme
  GetDefaultTimeUnit :: Unit

text \<open>The functions of package \<^verbatim>\<open>xtime\<close> and of package \<^verbatim>\<open>tsz\<close> that the iterator calls
  and whose code is not in the source files, as parameters:
  \<^item> \<open>IsValid\<close> and \<open>Value\<close> are the methods of \<^verbatim>\<open>xtime.Unit\<close> (\<open>Value\<close> returns a
    duration and an error);
  \<^item> \<open>xtime_None\<close> is the constant \<^verbatim>\<open>xtime.None\<close>;
  \<^item> \<open>initialTimeUnit\<close> and \<open>leadingAndTrailingZeros\<close> are helpers of package tsz.\<close>
record xtime =
  IsValid :: "Unit \<Rightarrow> bool"
  Value :: "Unit \<Rightarrow> Duration \<times> error option"
  xtime_None :: Unit
  initialTimeUnit :: "Time \<Rightarrow> Unit \<Rightarrow> Unit"
  leadingAndTrailingZeros :: "uint64 \<Rightarrow> int \<times> int"

text \<open>The struct \<^verbatim>\<open>readerIterator\<close>. Three fields are renamed because their names are taken:
  \<open>it_is\<close> is \<^verbatim>\<open>is\<close>, \<open>it_xor\<close> is \<^verbatim>\<open>xor\<close>, \<open>it_done\<close> is \<^verbatim>\<open>done\<close>. The value \<open>vb\<close> is kept as
  the 64 bits of the double.\<close>
record readerIterator =
  it_is :: istream
  opts :: Options
  tess :: "Unit \<rightharpoonup> TimeEncodingScheme"
  mes :: MarkerEncodingScheme
  t :: Time
  dt :: Duration
  vb :: uint64
  it_xor :: uint64
  it_done :: bool
  err :: "error option"
  ant :: "Annotation option"
  tu :: Unit
  tuChanged :: bool
  closed :: bool

subsection \<open>The bit stream\<close>

text \<open>The value of a run of bits, most significant first, shifted into a 64-bit word.\<close>
fun bitsToWord :: "uint64 \<Rightarrow> bool list \<Rightarrow> uint64" where
  "bitsToWord acc [] = acc"
| "bitsToWord acc (b # bs) = bitsToWord (push_bit 1 acc OR (if b then 1 else 0)) bs"

definition byteBits :: "8 word \<Rightarrow> bool list" where
  "byteBits b = map (\<lambda>i. bit b i) [7, 6, 5, 4, 3, 2, 1, 0]"

text \<open>Modelled from the spec: \<^verbatim>\<open>newIStream\<close> and \<^verbatim>\<open>istream.Reset\<close> are missing from the
  sources. The spec's bit reader wraps a byte-oriented reader as an MSB-first bit stream, and
  its reset replaces the underlying reader and drops the buffered bits.\<close>
definition newIStream :: "Reader \<Rightarrow> istream" where
  "newIStream reader = concat (map byteBits reader)"

definition istream_Reset :: "istream \<Rightarrow> Reader \<Rightarrow> istream" where
  "istream_Reset s reader = concat (map byteBits reader)"

text \<open>Modelled from the spec: \<^verbatim>\<open>istream.ReadBits\<close> is missing from the sources. The spec's
  \<^verbatim>\<open>read_bits(n)\<close> fails with UnexpectedEof if fewer than n bits remain, and advances the
  stream on success; an underflowing read returns 0.\<close>
definition ReadBits :: "istream \<Rightarrow> int \<Rightarrow> (uint64 \<times> error option) \<times> istream" where
  "ReadBits s numBits =
     (if length s < nat numBits then ((0, Some UnexpectedEof), s)
      else ((bitsToWord 0 (take (nat numBits) s), None), drop (nat numBits) s))"

text \<open>Modelled from the spec: \<^verbatim>\<open>istream.PeekBits\<close> is missing from the sources. The spec's
  \<^verbatim>\<open>peek_bits(n)\<close> makes the same check as \<^verbatim>\<open>read_bits\<close> and does not advance.\<close>
definition PeekBits :: "istream \<Rightarrow> int \<Rightarrow> uint64 \<times> error option" where
  "PeekBits s numBits =
     (if length s < nat numBits then (0, Some UnexpectedEof)
      else (bitsToWord 0 (take (nat numBits) s), None))"

text \<open>\<^verbatim>\<open>binary.ReadUvarint\<close> of Go's standard library, reading bytes through the stream:
  little-endian groups of 7 bits with a continuation bit, at most ten bytes. The first
  argument counts the bytes that may still be read. The \<^verbatim>\<open>ReadByte\<close> of the stream, which is
  missing from the sources as well, is a read of 8 bits.\<close>
fun ReadUvarint_loop ::
  "nat \<Rightarrow> uint64 \<Rightarrow> nat \<Rightarrow> istream \<Rightarrow> (uint64 \<times> error option) \<times> istream" where
  "ReadUvarint_loop 0 x s strm = ((x, Some VarintOverflow), strm)"
| "ReadUvarint_loop (Suc k) x s strm =
     (case ReadBits strm 8 of
        ((b, Some e), strm') \<Rightarrow> ((x, Some e), strm')
      | ((b, None), strm') \<Rightarrow>
          if b < 0x80 then
            (if k = 0 \<and> 1 < b then ((x, Some VarintOverflow), strm')
             else ((x OR push_bit s b, None), strm'))
          else ReadUvarint_loop k (x OR push_bit s (b AND 0x7f)) (s + 7) strm')"

definition ReadUvarint :: "istream \<Rightarrow> (uint64 \<times> error option) \<times> istream" where
  "ReadUvarint strm = ReadUvarint_loop 10 0 0 strm"

text \<open>\<^verbatim>\<open>binary.ReadVarint\<close>: the zig-zag decoding of the unsigned value.\<close>
definition ReadVarint :: "istream \<Rightarrow> (uint64 \<times> error option) \<times> istream" where
  "ReadVarint strm =
     (case ReadUvarint strm of
        ((ux, e), strm') \<Rightarrow>
          (let x = drop_bit 1 ux;
               x = (if ux AND 1 \<noteq> 0 then NOT x else x)
           in ((x, e), strm')))"

subsection \<open>Helpers of the package\<close>

text \<open>Go converts a shift count with \<^verbatim>\<open>uint(n)\<close>; on a 64-bit platform a negative count wraps
  to a count of at least 64, which shifts every bit out.\<close>
definition uint_of :: "int \<Rightarrow> nat" where
  "uint_of n = nat (n mod 2 ^ 64)"

text \<open>Modelled from the spec: \<^verbatim>\<open>signExtend\<close> is missing from the sources. The spec treats the
  value read as the low n bits of a two's-complement integer and replicates bit n-1 into the
  higher bits.\<close>
definition signExtend :: "uint64 \<Rightarrow> int \<Rightarrow> uint64" where
  "signExtend v numBits = signed_take_bit (nat numBits - 1) v"

text \<open>Modelled from the spec: \<^verbatim>\<open>xtime.FromNormalizedTime\<close> with unit nanosecond is missing
  from the sources. The spec reads the first 64 bits as signed nanoseconds since the (Unix)
  epoch, which is 62135596800 seconds after the zero instant.\<close>
definition unixToInternal :: int where
  "unixToInternal = 62135596800 * 1000000000"

definition FromNormalizedTime :: "uint64 \<Rightarrow> Time" where
  "FromNormalizedTime nt = unixToInternal + sint nt"

text \<open>Modelled from the spec: \<^verbatim>\<open>xtime.FromNormalizedDuration\<close> is missing from the sources.
  The spec converts normalized units to a duration by multiplying by the unit's size.\<close>
definition FromNormalizedDuration :: "uint64 \<Rightarrow> Duration \<Rightarrow> Duration" where
  "FromNormalizedDuration nd u = nd * u"

text \<open>Modelled from the spec: the opcode constants are missing from the sources. In the
  spec a first bit 0 is ZeroValueXOR, the prefix 10 is ContainedValueXOR and 11 opens a new
  window.\<close>
definition opcodeZeroValueXOR :: uint64 where
  "opcodeZeroValueXOR = 0"

definition opcodeContainedValueXOR :: uint64 where
  "opcodeContainedValueXOR = 2"

definition Add :: "Time \<Rightarrow> Duration \<Rightarrow> Time" where
  "Add tm d = tm + sint d"

definition IsZero :: "Time \<Rightarrow> bool" where
  "IsZero tm = (tm = 0)"

subsection \<open>The iterator\<close>

definition hasError :: "readerIterator \<Rightarrow> bool" where
  "hasError it = (err it \<noteq> None)"

definition isDone :: "readerIterator \<Rightarrow> bool" where
  "isDone it = it_done it"

definition isClosed :: "readerIterator \<Rightarrow> bool" where
  "isClosed it = closed it"

definition hasNext :: "readerIterator \<Rightarrow> bool" where
  "hasNext it = (\<not> hasError it \<and> \<not> isDone it \<and> \<not> isClosed it)"

definition readBits :: "readerIterator \<Rightarrow> int \<Rightarrow> uint64 \<times> readerIterator" where
  "readBits it numBits =
     (if \<not> hasNext it then (0, it)
      else (case ReadBits (it_is it) numBits of
              ((res, e), s) \<Rightarrow> (res, it\<lparr>it_is := s, err := e\<rparr>)))"

definition readVarint :: "readerIterator \<Rightarrow> uint64 \<times> readerIterator" where
  "readVarint it =
     (if \<not> hasNext it then (0, it)
      else (case ReadVarint (it_is it) of
              ((res, e), s) \<Rightarrow> (res, it\<lparr>it_is := s, err := e\<rparr>)))"

definition tryPeekBits :: "readerIterator \<Rightarrow> int \<Rightarrow> uint64 \<times> bool" where
  "tryPeekBits it numBits =
     (if \<not> hasNext it then (0, False)
      else (case PeekBits (it_is it) numBits of
              (res, Some e) \<Rightarrow> (0, False)
            | (res, None) \<Rightarrow> (res, True)))"

definition timeUnit :: "xtime \<Rightarrow> readerIterator \<Rightarrow> Duration \<times> readerIterator" where
  "timeUnit X it =
     (if hasError it then (0, it)
      else (case Value X (tu it) of (u, e) \<Rightarrow> (u, it\<lparr>err := e\<rparr>)))"

text \<open>The loop of \<^verbatim>\<open>readAnnotation\<close>: one \<^verbatim>\<open>readBits(8)\<close> for each index of the buffer.\<close>
fun readAnnotation_loop :: "nat \<Rightarrow> readerIterator \<Rightarrow> 8 word list \<times> readerIterator" where
  "readAnnotation_loop 0 it = ([], it)"
| "readAnnotation_loop (Suc n) it =
     (case readBits it 8 of
        (b, it1) \<Rightarrow> (case readAnnotation_loop n it1 of
                       (buf, it2) \<Rightarrow> (ucast b # buf, it2)))"

text \<open>\<^verbatim>\<open>antLen\<close> is a Go \<^verbatim>\<open>int\<close> (64 bits), so the increment wraps. The allocation of the
  buffer is taken to succeed.\<close>
definition readAnnotation :: "readerIterator \<Rightarrow> readerIterator" where
  "readAnnotation it =
     (case readVarint it of
        (v, it1) \<Rightarrow>
          (let antLen = v + 1 in
           if hasError it1 then it1
           else if sint antLen \<le> 0 then it1\<lparr>err := Some (InvalidAnnotationLength antLen)\<rparr>
           else (case readAnnotation_loop (nat (sint antLen)) it1 of
                   (buf, it2) \<Rightarrow> it2\<lparr>ant := Some buf\<rparr>)))"

definition readTimeUnit :: "xtime \<Rightarrow> readerIterator \<Rightarrow> readerIterator" where
  "readTimeUnit X it =
     (case readBits it 8 of
        (v, it1) \<Rightarrow>
          (let tu' = (ucast v :: Unit);
               it2 = (if IsValid X tu' \<and> tu' \<noteq> tu it1 then it1\<lparr>tuChanged := True\<rparr> else it1)
           in it2\<lparr>tu := tu'\<rparr>))"

text \<open>The tail of \<^verbatim>\<open>readDeltaOfDelta\<close> shared by the bucket found in the loop and the default
  bucket: read the value bits, sign-extend them, scale by the unit.\<close>
definition readBucketValue ::
  "xtime \<Rightarrow> int \<Rightarrow> readerIterator \<Rightarrow> Duration \<times> readerIterator" where
  "readBucketValue X numValueBits it =
     (case readBits it numValueBits of
        (v, it1) \<Rightarrow>
          (let dod = signExtend v numValueBits in
           case timeUnit X it1 of (u, it2) \<Rightarrow> (FromNormalizedDuration dod u, it2)))"

text \<open>The loop over the buckets: \<open>cb\<close> is the prefix read so far.\<close>
fun readDeltaOfDelta_loop ::
  "xtime \<Rightarrow> TimeEncodingScheme \<Rightarrow> Bucket list \<Rightarrow> uint64 \<Rightarrow> readerIterator
     \<Rightarrow> Duration \<times> readerIterator" where
  "readDeltaOfDelta_loop X tes [] cb it =
     readBucketValue X (NumValueBits (DefaultBucket tes)) it"
| "readDeltaOfDelta_loop X tes (b # bs) cb it =
     (case readBits it 1 of
        (r, it1) \<Rightarrow>
          (let cb' = push_bit 1 cb OR r in
           if cb' = Opcode b then readBucketValue X (NumValueBits b) it1
           else readDeltaOfDelta_loop X tes bs cb' it1))"

definition readDeltaOfDelta ::
  "xtime \<Rightarrow> readerIterator \<Rightarrow> TimeEncodingScheme \<Rightarrow> Duration \<times> readerIterator" where
  "readDeltaOfDelta X it tes =
     (if tuChanged it then
        (case readBits it 64 of (v, it1) \<Rightarrow> (signExtend v 64, it1))
      else
        (case readBits it 1 of
           (cb, it1) \<Rightarrow>
             if cb = Opcode (ZeroBucket tes) then (0, it1)
             else readDeltaOfDelta_loop X tes (Buckets tes) cb it1))"

text \<open>The measure under which the two mutually recursive readers terminate: the bits left,
  counted only while the iterator can still read.\<close>
definition remaining :: "readerIterator \<Rightarrow> nat" where
  "remaining it = (if hasNext it then Suc (length (it_is it)) else 0)"

text \<open>\<^verbatim>\<open>tryReadMarker\<close> and \<^verbatim>\<open>readMarkerOrDeltaOfDelta\<close> call each other. The cases of the
  \<^verbatim>\<open>switch\<close> are tried in the order of the source.\<close>
function tryReadMarker :: "xtime \<Rightarrow> readerIterator \<Rightarrow> (Duration \<times> bool) \<times> readerIterator"
  and readMarkerOrDeltaOfDelta :: "xtime \<Rightarrow> readerIterator \<Rightarrow> Duration \<times> readerIterator" where
  "tryReadMarker X it =
     (let numBits = NumOpcodeBits (mes it) + mesNumValueBits (mes it) in
      case tryPeekBits it numBits of
        (opcodeAndValue, success) \<Rightarrow>
          if \<not> success then ((0, False), it)
          else
            (let opcode = drop_bit (uint_of (mesNumValueBits (mes it))) opcodeAndValue in
             if opcode \<noteq> mesOpcode (mes it) then ((0, False), it)
             else
               (let valueMask = push_bit (uint_of (mesNumValueBits (mes it))) 1 - 1;
                    markerValue = opcodeAndValue AND valueMask in
                if markerValue = EndOfStream (mes it) then
                  (case readBits it numBits of
                     (_, it1) \<Rightarrow> ((0, True), it1\<lparr>it_done := True\<rparr>))
                else if markerValue = Annotation (mes it) then
                  (case readBits it numBits of
                     (_, it1) \<Rightarrow>
                       (case readMarkerOrDeltaOfDelta X (readAnnotation it1) of
                          (dod, it3) \<Rightarrow> ((dod, True), it3)))
                else if markerValue = TimeUnit (mes it) then
                  (case readBits it numBits of
                     (_, it1) \<Rightarrow>
                       (case readMarkerOrDeltaOfDelta X (readTimeUnit X it1) of
                          (dod, it3) \<Rightarrow> ((dod, True), it3)))
                else ((0, False), it))))"
| "readMarkerOrDeltaOfDelta X it =
     (case tryReadMarker X it of
        ((dod, success), it1) \<Rightarrow>
          if success then (dod, it1)
          else
            (case tess it1 (tu it1) of
               None \<Rightarrow> (0, it1\<lparr>err := Some (SchemeMissing (tu it1))\<rparr>)
             | Some tes \<Rightarrow> readDeltaOfDelta X it1 tes))"
  by pat_completeness auto

definition readNextTimestamp :: "xtime \<Rightarrow> readerIterator \<Rightarrow> readerIterator" where
  "readNextTimestamp X it =
     (case readMarkerOrDeltaOfDelta X it of
        (dod, it1) \<Rightarrow>
          (let it2 = it1\<lparr>dt := dt it1 + dod\<rparr>
           in it2\<lparr>t := Add (t it2) (dt it2)\<rparr>))"

definition readFirstTimestamp :: "xtime \<Rightarrow> readerIterator \<Rightarrow> readerIterator" where
  "readFirstTimestamp X it =
     (case readBits it 64 of
        (nt, it1) \<Rightarrow>
          (let st = FromNormalizedTime nt;
               it2 = it1\<lparr>tu := initialTimeUnit X st (GetDefaultTimeUnit (opts it1))\<rparr>;
               it3 = readNextTimestamp X it2
           in it3\<lparr>t := Add st (dt it3)\<rparr>))"

definition readFirstValue :: "readerIterator \<Rightarrow> readerIterator" where
  "readFirstValue it =
     (case readBits it 64 of
        (v, it1) \<Rightarrow> (let it2 = it1\<lparr>vb := v\<rparr> in it2\<lparr>it_xor := vb it2\<rparr>))"

definition readXOR :: "xtime \<Rightarrow> readerIterator \<Rightarrow> uint64 \<times> readerIterator" where
  "readXOR X it =
     (case readBits it 1 of
        (cb, it1) \<Rightarrow>
          if cb = opcodeZeroValueXOR then (0, it1)
          else
            (case readBits it1 1 of
               (r, it2) \<Rightarrow>
                 (let cb' = push_bit 1 cb OR r in
                  if cb' = opcodeContainedValueXOR then
                    (case leadingAndTrailingZeros X (it_xor it2) of
                       (previousLeading, previousTrailing) \<Rightarrow>
                         (let numMeaningfulBits = 64 - previousLeading - previousTrailing in
                          case readBits it2 numMeaningfulBits of
                            (v, it3) \<Rightarrow> (push_bit (uint_of previousTrailing) v, it3)))
                  else
                    (case readBits it2 6 of
                       (l, it3) \<Rightarrow>
                         (case readBits it3 6 of
                            (m, it4) \<Rightarrow>
                              (let numLeadingZeros = sint l;
                                   numMeaningfulBits = sint m + 1;
                                   numTrailingZeros = 64 - numLeadingZeros - numMeaningfulBits in
                               case readBits it4 numMeaningfulBits of
                                 (meaningfulBits, it5) \<Rightarrow>
                                   (push_bit (uint_of numTrailingZeros) meaningfulBits, it5)))))))"

definition readNextValue :: "xtime \<Rightarrow> readerIterator \<Rightarrow> readerIterator" where
  "readNextValue X it =
     (case readXOR X it of
        (x, it1) \<Rightarrow> (let it2 = it1\<lparr>it_xor := x\<rparr> in it2\<lparr>vb := vb it2 XOR it_xor it2\<rparr>))"

definition Next :: "xtime \<Rightarrow> readerIterator \<Rightarrow> bool \<times> readerIterator" where
  "Next X it =
     (if \<not> hasNext it then (False, it)
      else
        (let it1 = it\<lparr>ant := None\<rparr>;
             it2 = it1\<lparr>tuChanged := False\<rparr>;
             it3 = (if IsZero (t it2) then readFirstValue (readFirstTimestamp X it2)
                    else readNextValue X (readNextTimestamp X it2));
             it4 = (if tuChanged it3 then it3\<lparr>dt := 0\<rparr> else it3)
         in (hasNext it4, it4)))"

text \<open>\<^verbatim>\<open>Current\<close>: the datapoint (timestamp and the bits of the double), the unit and the
  annotation.\<close>
definition Current :: "readerIterator \<Rightarrow> (Time \<times> uint64) \<times> Unit \<times> Annotation option" where
  "Current it = ((t it, vb it), tu it, ant it)"

definition Err :: "readerIterator \<Rightarrow> error option" where
  "Err it = err it"

definition NewReaderIterator :: "Reader \<Rightarrow> Options \<Rightarrow> readerIterator" where
  "NewReaderIterator reader os =
     \<lparr> it_is = newIStream reader, opts = os, tess = GetTimeEncodingSchemes os,
       mes = GetMarkerEncodingScheme os, t = 0, dt = 0, vb = 0, it_xor = 0, it_done = False,
       err = None, ant = None, tu = 0, tuChanged = False, closed = False \<rparr>"

definition Reset :: "xtime \<Rightarrow> readerIterator \<Rightarrow> Reader \<Rightarrow> readerIterator" where
  "Reset X it reader =
     it\<lparr> it_is := istream_Reset (it_is it) reader, t := 0, dt := 0, vb := 0, it_xor := 0,
         it_done := False, err := None, ant := None, tu := xtime_None X, closed := False \<rparr>"

text \<open>\<^verbatim>\<open>Close\<close>, without the hand-over to the pool.\<close>
definition Close :: "readerIterator \<Rightarrow> readerIterator" where
  "Close it = (if closed it then it else it\<lparr>closed := True\<rparr>)"

text \<open>What a caller observes when it calls \<^verbatim>\<open>Next\<close> repeatedly: after each call the result
  of \<^verbatim>\<open>Next\<close>, of \<^verbatim>\<open>Current\<close> and of \<^verbatim>\<open>Err\<close>.\<close>
fun decode ::
  "xtime \<Rightarrow> nat \<Rightarrow> readerIterator
     \<Rightarrow> (bool \<times> ((Time \<times> uint64) \<times> Unit \<times> Annotation option) \<times> error option) list" where
  "decode X 0 it = []"
| "decode X (Suc n) it =
     (case Next X it of (b, it') \<Rightarrow> (b, Current it', Err it') # decode X n it')"

text \<open>The iterator after n calls of \<^verbatim>\<open>Next\<close>.\<close>
fun Next_times :: "xtime \<Rightarrow> nat \<Rightarrow> readerIterator \<Rightarrow> readerIterator" where
  "Next_times X 0 it = it"
| "Next_times X (Suc n) it = Next_times X n (snd (Next X it))"

subsection \<open>Notions used in the statements\<close>

text \<open>The number of bits of a marker, and the iterator after these bits have been read.\<close>
definition markerBits :: "readerIterator \<Rightarrow> int" where
  "markerBits it = NumOpcodeBits (mes it) + mesNumValueBits (mes it)"

definition skipMarker :: "readerIterator \<Rightarrow> readerIterator" where
  "skipMarker it = it\<lparr>it_is := drop (nat (markerBits it)) (it_is it)\<rparr>"

text \<open>The fields that reading never changes: everything except the stream, the error, the
  annotation, the unit and the flags done and tuChanged.\<close>
definition kept :: "readerIterator \<Rightarrow> readerIterator \<Rightarrow> bool" where
  "kept it it' =
     (opts it' = opts it \<and> tess it' = tess it \<and> mes it' = mes it \<and> t it' = t it \<and>
      dt it' = dt it \<and> vb it' = vb it \<and> it_xor it' = it_xor it \<and> closed it' = closed it)"

text \<open>Only the stream and the error differ.\<close>
definition streamOnly :: "readerIterator \<Rightarrow> readerIterator \<Rightarrow> bool" where
  "streamOnly it it' =
     (kept it it' \<and> it_done it' = it_done it \<and> tu it' = tu it \<and>
      tuChanged it' = tuChanged it \<and> ant it' = ant it)"


text \<open>The fields of the iterator that decoding changes, as one tuple. The options and the
  two tables taken from them stay as they are.\<close>
definition observe ::
  "readerIterator \<Rightarrow>
     istream \<times> Time \<times> Duration \<times> uint64 \<times> uint64 \<times> bool \<times> error option \<times>
     Annotation option \<times> Unit \<times> bool \<times> bool" where
  "observe it =
     (it_is it, t it, dt it, vb it, it_xor it, it_done it, err it, ant it, tu it,
      tuChanged it, closed it)"

text \<open>The marker that \<^verbatim>\<open>tryReadMarker\<close> sees before the iterator: the low value bits of the
  peeked word, when the peek succeeds and the high bits are the marker opcode.\<close>
definition markerAt :: "readerIterator \<Rightarrow> Marker option" where
  "markerAt it =
     (case tryPeekBits it (markerBits it) of
        (opcodeAndValue, success) \<Rightarrow>
          if success \<and> drop_bit (uint_of (mesNumValueBits (mes it))) opcodeAndValue = mesOpcode (mes it)
          then Some (opcodeAndValue AND (push_bit (uint_of (mesNumValueBits (mes it))) 1 - 1))
          else None)"

text \<open>The case of the \<^verbatim>\<open>switch\<close> that the iterator stands before, in the order in which the
  source tries the cases; \<open>atDeltaOfDelta\<close> is the default case and the two early returns.\<close>
definition atEndOfStream :: "readerIterator \<Rightarrow> bool" where
  "atEndOfStream it = (markerAt it = Some (EndOfStream (mes it)))"

definition atAnnotation :: "readerIterator \<Rightarrow> bool" where
  "atAnnotation it =
     (markerAt it = Some (Annotation (mes it)) \<and> Annotation (mes it) \<noteq> EndOfStream (mes it))"

definition atTimeUnit :: "readerIterator \<Rightarrow> bool" where
  "atTimeUnit it =
     (markerAt it = Some (TimeUnit (mes it)) \<and> TimeUnit (mes it) \<noteq> EndOfStream (mes it) \<and>
      TimeUnit (mes it) \<noteq> Annotation (mes it))"

definition atDeltaOfDelta :: "readerIterator \<Rightarrow> bool" where
  "atDeltaOfDelta it = (\<not> atEndOfStream it \<and> \<not> atAnnotation it \<and> \<not> atTimeUnit it)"

text \<open>\<open>markers X e k\<close>: a timestamp read that starts in the state e stands in the state k after
  it has consumed zero or more Annotation and TimeUnit markers, each with its payload.\<close>
inductive markers :: "xtime \<Rightarrow> readerIterator \<Rightarrow> readerIterator \<Rightarrow> bool" for X e where
  here: "markers X e e"
| annotation: "markers X e k \<Longrightarrow> atAnnotation k \<Longrightarrow> markers X e (readAnnotation (skipMarker k))"
| time_unit: "markers X e k \<Longrightarrow> atTimeUnit k \<Longrightarrow> markers X e (readTimeUnit X (skipMarker k))"

code_pred markers .

text \<open>The state in which a call of \<^verbatim>\<open>Next\<close> starts its timestamp read, that is, in which it
  calls \<^verbatim>\<open>readNextTimestamp\<close>: the annotation and the flag tuChanged are cleared, and on the
  first-record path (t is the zero instant) the 64 bits of the first timestamp have been
  read and the unit has been set from it.\<close>
definition timestampEntry :: "xtime \<Rightarrow> readerIterator \<Rightarrow> readerIterator" where
  "timestampEntry X it =
     (let it2 = it\<lparr>ant := None, tuChanged := False\<rparr> in
      if IsZero (t it2) then
        (case readBits it2 64 of
           (nt, it3) \<Rightarrow>
             it3\<lparr>tu := initialTimeUnit X (FromNormalizedTime nt) (GetDefaultTimeUnit (opts it3))\<rparr>)
      else it2)"

subsection \<open>A small configuration for evaluation\<close>

text \<open>An instance of the parameters, used to run the decoder on concrete streams. Units: 1 is
  the second and 2 the millisecond; 0 is \<^verbatim>\<open>xtime.None\<close>. The zero counting helper counts on
  the 64-bit word and answers (64, 0) for the word 0.\<close>

fun trailingZeros :: "nat \<Rightarrow> uint64 \<Rightarrow> int" where
  "trailingZeros 0 v = 0"
| "trailingZeros (Suc k) v = (if bit v 0 then 0 else 1 + trailingZeros k (drop_bit 1 v))"

fun leadingZeros :: "nat \<Rightarrow> uint64 \<Rightarrow> int" where
  "leadingZeros 0 v = 0"
| "leadingZeros (Suc k) v = (if bit v 63 then 0 else 1 + leadingZeros k (push_bit 1 v))"

definition X0 :: xtime where
  "X0 = \<lparr> IsValid = (\<lambda>u. u = 1 \<or> u = 2),
          Value = (\<lambda>u. if u = 1 then (1000000000, None)
                        else if u = 2 then (1000000, None)
                        else (0, Some UnrecognizedTimeUnit)),
          xtime_None = 0,
          initialTimeUnit = (\<lambda>st u. if u = 1 \<and> (st - unixToInternal) mod 1000000000 = 0 then 1
                                     else if u = 2 \<and> (st - unixToInternal) mod 1000000 = 0 then 2
                                     else 0),
          leadingAndTrailingZeros =
            (\<lambda>v. if v = 0 then (64, 0) else (leadingZeros 64 v, trailingZeros 64 v)) \<rparr>"

text \<open>One scheme, registered for the second only: the prefix 0 is a delta-of-delta of zero,
  10 carries 6 bits, 11 carries 12 bits.\<close>
definition tes0 :: TimeEncodingScheme where
  "tes0 = \<lparr> ZeroBucket = \<lparr>Opcode = 0, NumValueBits = 0\<rparr>,
            Buckets = [\<lparr>Opcode = 2, NumValueBits = 6\<rparr>],
            DefaultBucket = \<lparr>Opcode = 3, NumValueBits = 12\<rparr> \<rparr>"

text \<open>Markers: six opcode bits 111111 and two value bits; the value 0 is no marker.\<close>
definition mes0 :: MarkerEncodingScheme where
  "mes0 = \<lparr> NumOpcodeBits = 6, mesNumValueBits = 2, mesOpcode = 63,
            EndOfStream = 1, Annotation = 2, TimeUnit = 3 \<rparr>"

definition opts0 :: Options where
  "opts0 = \<lparr> GetTimeEncodingSchemes = [1 \<mapsto> tes0],
             GetMarkerEncodingScheme = mes0,
             GetDefaultTimeUnit = 1 \<rparr>"

text \<open>A stream of two records: the first timestamp (one second after the epoch), the
  prefix 10 with the value 5, the bits of the double 1.5, then the end-of-stream marker.\<close>
definition stream_two :: Reader where
  "stream_two = [0, 0, 0, 0, 0x3B, 0x9A, 0xCA, 0x00, 0x85,
                 0x3F, 0xF8, 0, 0, 0, 0, 0, 0, 0xFD]"

text \<open>The iterator on that stream after the first call of \<^verbatim>\<open>Next\<close>.\<close>
definition it_two :: readerIterator where
  "it_two = snd (Next X0 (NewReaderIterator stream_two opts0))"

text \<open>More streams. Each starts with the record of \<open>stream_two\<close>; the iterators are taken
  after the first call of \<^verbatim>\<open>Next\<close>, so that their stream starts where the second record does:
  a TimeUnit marker with the code 255, which is no unit; a TimeUnit marker that switches to
  the millisecond, followed by 64 bits holding 500000000; a TimeUnit marker cut off before
  its code; an annotation of four bytes; an annotation whose length decodes to 0.\<close>
definition stream_invalid_unit :: Reader where
  "stream_invalid_unit = [0, 0, 0, 0, 0x3B, 0x9A, 0xCA, 0x00, 0x85,
                          0x3F, 0xF8, 0, 0, 0, 0, 0, 0, 0xFF, 0xFF, 0x00, 0x00]"

definition it_invalid_unit :: readerIterator where
  "it_invalid_unit = snd (Next X0 (NewReaderIterator stream_invalid_unit opts0))"

definition stream_unit_ms :: Reader where
  "stream_unit_ms = [0, 0, 0, 0, 0x3B, 0x9A, 0xCA, 0x00, 0x85,
                     0x3F, 0xF8, 0, 0, 0, 0, 0, 0, 0xFF, 0x02,
                     0, 0, 0, 0, 0x1D, 0xCD, 0x65, 0x00, 0x00]"

definition it_unit_ms :: readerIterator where
  "it_unit_ms = snd (Next X0 (NewReaderIterator stream_unit_ms opts0))"

definition opts_ms :: Options where
  "opts_ms = opts0\<lparr>GetTimeEncodingSchemes := [1 \<mapsto> tes0, 2 \<mapsto> tes0]\<rparr>"

definition it_ms :: readerIterator where
  "it_ms = snd (Next X0 (NewReaderIterator stream_unit_ms opts_ms))"

definition stream_cut :: Reader where
  "stream_cut = [0, 0, 0, 0, 0x3B, 0x9A, 0xCA, 0x00, 0x85,
                 0x3F, 0xF8, 0, 0, 0, 0, 0, 0, 0xFF]"

definition it_cut :: readerIterator where
  "it_cut = snd (Next X0 (NewReaderIterator stream_cut opts0))"

definition stream_ann :: Reader where
  "stream_ann = [0, 0, 0, 0, 0x3B, 0x9A, 0xCA, 0x00, 0x85,
                 0x3F, 0xF8, 0, 0, 0, 0, 0, 0, 0xFE, 0x06, 0xDE, 0xAD, 0xBE, 0xEF, 0x00]"

definition it_ann :: readerIterator where
  "it_ann = snd (Next X0 (NewReaderIterator stream_ann opts0))"

definition stream_ann_bad :: Reader where
  "stream_ann_bad = [0, 0, 0, 0, 0x3B, 0x9A, 0xCA, 0x00, 0x85,
                     0x3F, 0xF8, 0, 0, 0, 0, 0, 0, 0xFE, 0x01, 0x00]"

definition it_ann_bad :: readerIterator where
  "it_ann_bad = snd (Next X0 (NewReaderIterator stream_ann_bad opts0))"

text \<open>The record of \<open>stream_two\<close>, then an annotation of four bytes and the end-of-stream
  marker.\<close>
definition stream_ann_eos :: Reader where
  "stream_ann_eos = [0, 0, 0, 0, 0x3B, 0x9A, 0xCA, 0x00, 0x85,
                     0x3F, 0xF8, 0, 0, 0, 0, 0, 0, 0xFE, 0x06, 0xDE, 0xAD, 0xBE, 0xEF, 0xFD]"

definition it_ann_eos :: readerIterator where
  "it_ann_eos = snd (Next X0 (NewReaderIterator stream_ann_eos opts0))"

text \<open>Iterators that stand before a marker opcode with the unknown value 0, before a single
  bit, and before the bits of a value.\<close>
definition it_unknown :: readerIterator where
  "it_unknown = (NewReaderIterator [0xFC, 0x00] opts0)\<lparr>tu := 1\<rparr>"

definition it_short :: readerIterator where
  "it_short = (NewReaderIterator [] opts0)\<lparr>it_is := [False], tu := 1\<rparr>"

definition it_value :: "8 word list \<Rightarrow> readerIterator" where
  "it_value r = (NewReaderIterator r opts0)\<lparr>t := 1, vb := 0x3FF8000000000000, it_xor := 0x0008000000000000, tu := 1\<rparr>"

text \<open>The iterator that has decoded the record of \<open>stream_two\<close> and stands before the bytes
  \<open>rest\<close>: the timestamp is six seconds after the epoch, the delta five seconds, the value
  1.5 and the unit the second.\<close>
definition after_first :: "Options \<Rightarrow> Reader \<Rightarrow> readerIterator" where
  "after_first os rest =
     (NewReaderIterator rest os)
       \<lparr>t := unixToInternal + 6000000000, dt := 5000000000, vb := 0x3FF8000000000000,
        it_xor := 0x3FF8000000000000, tu := 1\<rparr>"

text \<open>A stream that brings the timestamp to the zero instant. The first timestamp is
  9000000000 seconds before the epoch. Each of the six records opens with a TimeUnit marker
  that switches between the millisecond and the second, so that its delta-of-delta is 64
  bits of nanoseconds: five times -9000000000 seconds, then -8135596800 seconds. The first
  record carries the 64 bits of the double 1.5, the others the bit 0 (the value repeats).
  Then come 64 bits (one second after the epoch), the end-of-stream marker and three bits
  of padding. \<open>it_zero\<close> is the iterator after six calls of \<^verbatim>\<open>Next\<close> on that stream, which
  is the iterator \<open>at_zero\<close>.\<close>
definition stream_zero :: Reader where
  "stream_zero =
     [0x83, 0x19, 0x93, 0xAF, 0x1D, 0x7C, 0x00, 0x00, 0xFF, 0x02,
      0x83, 0x19, 0x93, 0xAF, 0x1D, 0x7C, 0x00, 0x00, 0x3F, 0xF8,
      0x00, 0x00, 0x00, 0x00, 0x00, 0x00, 0xFF, 0x01, 0x83, 0x19,
      0x93, 0xAF, 0x1D, 0x7C, 0x00, 0x00, 0x7F, 0x81, 0x41, 0x8C,
      0xC9, 0xD7, 0x8E, 0xBE, 0x00, 0x00, 0x3F, 0xC0, 0x60, 0xC6,
      0x64, 0xEB, 0xC7, 0x5F, 0x00, 0x00, 0x1F, 0xE0, 0x50, 0x63,
      0x32, 0x75, 0xE3, 0xAF, 0x80, 0x00, 0x0F, 0xF0, 0x18, 0xF1,
      0x88, 0xDD, 0x08, 0xC3, 0x20, 0x00, 0x00, 0x00, 0x00, 0x00,
      0x01, 0xDC, 0xD6, 0x50, 0x07, 0xE8]"

definition it_zero :: readerIterator where
  "it_zero = Next_times X0 6 (NewReaderIterator stream_zero opts_ms)"

definition at_zero :: readerIterator where
  "at_zero =
     (NewReaderIterator [] opts_ms)
       \<lparr>it_is := newIStream [0, 0, 0, 0, 0x3B, 0x9A, 0xCA, 0x00, 0xFD] @ [False, False, False],
        vb := 0x3FF8000000000000, tu := 1, tuChanged := True\<rparr>"

section \<open>Termination of the marker reader\<close>

text \<open>Each round of the mutual recursion consumes bits or stops the iterator, so the
  measure \<open>remaining\<close> falls.\<close>

lemma readBits_remaining: "remaining (snd (readBits it n)) \<le> remaining it"
  by (auto simp: readBits_def remaining_def hasNext_def hasError_def isDone_def isClosed_def ReadBits_def split: prod.splits)

lemma readBits_remaining_less:
  "hasNext it \<Longrightarrow> 0 < n \<Longrightarrow> remaining (snd (readBits it n)) < remaining it"
  by (auto simp: readBits_def remaining_def hasNext_def hasError_def isDone_def isClosed_def ReadBits_def split: prod.splits)

lemma remaining_tuChanged [simp]: "remaining (it\<lparr>tuChanged := b\<rparr>) = remaining it"
  "remaining (it\<lparr>tu := u\<rparr>) = remaining it" "remaining (it\<lparr>ant := a\<rparr>) = remaining it"
  by (simp_all add: remaining_def hasNext_def hasError_def isDone_def isClosed_def)

lemma remaining_pos: "hasNext it \<Longrightarrow> 0 < remaining it"
  by (simp add: remaining_def)

lemma remaining_zero: "\<not> hasNext it \<Longrightarrow> remaining it = 0"
  by (simp add: remaining_def)

lemma readTimeUnit_remaining:
  "hasNext it \<Longrightarrow> remaining (readTimeUnit X it) < remaining it"
  using readBits_remaining_less [of it 8]
  by (auto simp: readTimeUnit_def Let_def split: prod.splits)

lemma readAnnotation_loop_remaining:
  "remaining (snd (readAnnotation_loop n it)) \<le> remaining it"
proof (induction n arbitrary: it)
  case 0 then show ?case by simp
next
  case (Suc n)
  show ?case using Suc.IH [of "snd (readBits it 8)"] readBits_remaining [of it 8]
    by (auto split: prod.splits)
qed

lemma ReadBits_length: "length (snd (ReadBits strm n)) \<le> length strm"
  by (simp add: ReadBits_def)

lemma ReadUvarint_loop_length:
  "length (snd (ReadUvarint_loop k x s strm)) \<le> length strm"
proof (induction k arbitrary: x s strm)
  case 0 then show ?case by simp
next
  case (Suc k)
  obtain b e strm' where r: "ReadBits strm 8 = ((b, e), strm')"
    by (metis surj_pair)
  have l: "length strm' \<le> length strm" using ReadBits_length [of strm 8] r by simp
  show ?case
  proof (cases e)
    case None
    then show ?thesis using r l Suc.IH [of "x OR push_bit s (b AND 0x7f)" "s + 7" strm']
      by (auto simp del: ReadUvarint_loop.simps(2) simp add: ReadUvarint_loop.simps(2) [of k x s strm])
  next
    case (Some a)
    then show ?thesis using r l by simp
  qed
qed

lemma readVarint_remaining: "remaining (snd (readVarint it)) \<le> remaining it"
  using ReadUvarint_loop_length [of 10 0 0 "it_is it"]
  by (auto simp: readVarint_def remaining_def hasNext_def hasError_def isDone_def isClosed_def
      ReadVarint_def ReadUvarint_def Let_def split: prod.splits)

lemma remaining_err_Some [simp]: "remaining (it\<lparr>err := Some e\<rparr>) = 0"
  by (simp add: remaining_def hasNext_def hasError_def)

lemma readAnnotation_loop_less:
  "hasNext it \<Longrightarrow> 0 < n \<Longrightarrow> remaining (snd (readAnnotation_loop n it)) < remaining it"
  using readBits_remaining_less [of it 8] readAnnotation_loop_remaining [of "n - 1" "snd (readBits it 8)"]
  by (cases n) (auto split: prod.splits)

lemma readAnnotation_remaining_less:
  assumes "hasNext it" shows "remaining (readAnnotation it) < remaining it"
proof -
  obtain v it1 where r: "readVarint it = (v, it1)" by (metis surj_pair)
  have le: "remaining it1 \<le> remaining it" using readVarint_remaining [of it] r by simp
  have pos: "0 < remaining it" using assms by (rule remaining_pos)
  show ?thesis
  proof (cases "hasNext it1")
    case False
    then have "remaining (readAnnotation it) = 0"
      using r readAnnotation_loop_remaining [of "nat (sint (v + 1))" it1]
      by (auto simp: readAnnotation_def Let_def remaining_zero split: prod.splits)
    then show ?thesis using pos by simp
  next
    case True
    then have ne: "\<not> hasError it1" by (simp add: hasNext_def)
    show ?thesis
    proof (cases "sint (v + 1) \<le> 0")
      case True
      then show ?thesis using r ne pos by (simp add: readAnnotation_def Let_def)
    next
      case False
      then have "remaining (snd (readAnnotation_loop (nat (sint (v + 1))) it1)) < remaining it1"
        using \<open>hasNext it1\<close> by (intro readAnnotation_loop_less) auto
      then show ?thesis using r ne False le
        by (auto simp: readAnnotation_def Let_def split: prod.splits)
    qed
  qed
qed

lemma tryPeekBits_readBits:
  "tryPeekBits it n = (v, True) \<Longrightarrow> hasNext (snd (readBits it n)) \<and> remaining (snd (readBits it n)) \<le> remaining it"
  using readBits_remaining [of it n]
  by (auto simp: tryPeekBits_def readBits_def PeekBits_def ReadBits_def hasNext_def hasError_def
      isDone_def isClosed_def split: if_splits prod.splits option.splits)

lemma tryReadMarker_Annotation_decreases:
  assumes "(v, True) = tryPeekBits it n" and "(r, it1) = readBits it n"
  shows "Suc (2 * remaining (readAnnotation it1)) < 2 * remaining it"
proof -
  have "hasNext it1 \<and> remaining it1 \<le> remaining it"
    using tryPeekBits_readBits [of it n v] assms by (metis snd_conv)
  then show ?thesis using readAnnotation_remaining_less [of it1] by simp
qed

lemma tryReadMarker_TimeUnit_decreases:
  assumes "(v, True) = tryPeekBits it n" and "(r, it1) = readBits it n"
  shows "Suc (2 * remaining (readTimeUnit X it1)) < 2 * remaining it"
proof -
  have "hasNext it1 \<and> remaining it1 \<le> remaining it"
    using tryPeekBits_readBits [of it n v] assms by (metis snd_conv)
  then show ?thesis using readTimeUnit_remaining [of it1 X] by simp
qed

termination tryReadMarker
  apply (relation "measure (\<lambda>x. case x of Inl (X, it) \<Rightarrow> 2 * remaining it
                                      | Inr (X, it) \<Rightarrow> 2 * remaining it + 1)")
     apply simp
    apply (simp, erule tryReadMarker_Annotation_decreases, assumption)
   apply (simp, erule tryReadMarker_TimeUnit_decreases, assumption)
  apply simp
  done

declare tryReadMarker.simps [simp del] readMarkerOrDeltaOfDelta.simps [simp del]

section \<open>What the readers leave unchanged\<close>

lemma kept_refl [simp]: "kept it it"
  by (simp add: kept_def)

lemma kept_trans: "kept a b \<Longrightarrow> kept b c \<Longrightarrow> kept a c"
  by (simp add: kept_def)

lemma readBits_terminal: "\<not> hasNext it \<Longrightarrow> readBits it n = (0, it)"
  by (simp add: readBits_def)

lemma readVarint_terminal: "\<not> hasNext it \<Longrightarrow> readVarint it = (0, it)"
  by (simp add: readVarint_def)

lemma tryPeekBits_terminal: "\<not> hasNext it \<Longrightarrow> tryPeekBits it n = (0, False)"
  by (simp add: tryPeekBits_def)

lemma readBits_kept: "kept it (snd (readBits it n))"
  by (auto simp: readBits_def kept_def split: prod.splits)

lemma readBits_fields:
  "tu (snd (readBits it n)) = tu it" "tuChanged (snd (readBits it n)) = tuChanged it"
  "ant (snd (readBits it n)) = ant it" "it_done (snd (readBits it n)) = it_done it"
  by (auto simp: readBits_def split: prod.splits)

lemma readVarint_kept: "kept it (snd (readVarint it))"
  by (auto simp: readVarint_def kept_def split: prod.splits)

lemma readVarint_fields:
  "tu (snd (readVarint it)) = tu it" "tuChanged (snd (readVarint it)) = tuChanged it"
  "ant (snd (readVarint it)) = ant it" "it_done (snd (readVarint it)) = it_done it"
  by (auto simp: readVarint_def split: prod.splits)

lemma timeUnit_kept: "kept it (snd (timeUnit X it))"
  by (auto simp: timeUnit_def kept_def split: prod.splits)

lemma timeUnit_fields:
  "tu (snd (timeUnit X it)) = tu it" "tuChanged (snd (timeUnit X it)) = tuChanged it"
  "ant (snd (timeUnit X it)) = ant it" "it_is (snd (timeUnit X it)) = it_is it"
  "it_done (snd (timeUnit X it)) = it_done it"
  by (auto simp: timeUnit_def split: prod.splits)

lemma readAnnotation_loop_kept: "kept it (snd (readAnnotation_loop n it))"
proof (induction n arbitrary: it)
  case 0 show ?case by simp
next
  case (Suc n)
  show ?case using Suc.IH [of "snd (readBits it 8)"] readBits_kept [of it 8]
    by (auto split: prod.splits intro: kept_trans)
qed

lemma readAnnotation_loop_fields:
  "tu (snd (readAnnotation_loop n it)) = tu it \<and>
   tuChanged (snd (readAnnotation_loop n it)) = tuChanged it \<and>
   it_done (snd (readAnnotation_loop n it)) = it_done it"
proof (induction n arbitrary: it)
  case 0 show ?case by simp
next
  case (Suc n)
  show ?case using Suc.IH [of "snd (readBits it 8)"] readBits_fields [of it 8]
    by (auto split: prod.splits)
qed

lemma kept_update [simp]:
  "kept it (it'\<lparr>err := e\<rparr>) = kept it it'" "kept it (it'\<lparr>ant := a\<rparr>) = kept it it'"
  "kept it (it'\<lparr>tu := u\<rparr>) = kept it it'" "kept it (it'\<lparr>tuChanged := c\<rparr>) = kept it it'"
  "kept it (it'\<lparr>it_is := s\<rparr>) = kept it it'"
  by (simp_all add: kept_def)

lemma readAnnotation_kept: "kept it (readAnnotation it)"
  using readVarint_kept [of it]
    readAnnotation_loop_kept [of "snd (readVarint it)" "nat (sint (fst (readVarint it) + 1))"]
  by (auto simp: readAnnotation_def Let_def split: prod.splits intro: kept_trans)

lemma readAnnotation_fields:
  "tu (readAnnotation it) = tu it" "tuChanged (readAnnotation it) = tuChanged it"
  "it_done (readAnnotation it) = it_done it"
  using readVarint_fields [of it]
    readAnnotation_loop_fields [of "nat (sint (fst (readVarint it) + 1))" "snd (readVarint it)"]
  by (auto simp: readAnnotation_def Let_def split: prod.splits)

lemma readTimeUnit_kept: "kept it (readTimeUnit X it)"
  using readBits_kept [of it 8]
  by (auto simp: readTimeUnit_def Let_def split: prod.splits)

lemma readTimeUnit_tuChanged: "tuChanged it \<Longrightarrow> tuChanged (readTimeUnit X it)"
  using readBits_fields [of it 8]
  by (auto simp: readTimeUnit_def Let_def split: prod.splits)

lemma readTimeUnit_done: "it_done (readTimeUnit X it) = it_done it"
  using readBits_fields [of it 8]
  by (auto simp: readTimeUnit_def Let_def split: prod.splits)

lemma readBucketValue_kept: "kept it (snd (readBucketValue X n it))"
  using readBits_kept [of it n] timeUnit_kept [of "snd (readBits it n)" X]
  by (auto simp: readBucketValue_def Let_def split: prod.splits intro: kept_trans)

lemma readBucketValue_fields:
  "tu (snd (readBucketValue X n it)) = tu it"
  "tuChanged (snd (readBucketValue X n it)) = tuChanged it"
  "ant (snd (readBucketValue X n it)) = ant it"
  "it_done (snd (readBucketValue X n it)) = it_done it"
  using readBits_fields [of it n] timeUnit_fields [of X "snd (readBits it n)"]
  by (auto simp: readBucketValue_def Let_def split: prod.splits)

lemma readDeltaOfDelta_loop_kept: "kept it (snd (readDeltaOfDelta_loop X tes bs cb it))"
proof (induction bs arbitrary: cb it)
  case Nil show ?case by (simp add: readBucketValue_kept)
next
  case (Cons b bs)
  show ?case
    using Cons.IH [where cb = "push_bit 1 cb OR fst (readBits it 1)" and it = "snd (readBits it 1)"]
      readBits_kept [of it 1] readBucketValue_kept [of "snd (readBits it 1)" X "NumValueBits b"]
    by (auto simp: Let_def split: prod.splits intro: kept_trans)
qed

lemma readDeltaOfDelta_loop_fields:
  "tu (snd (readDeltaOfDelta_loop X tes bs cb it)) = tu it \<and>
   tuChanged (snd (readDeltaOfDelta_loop X tes bs cb it)) = tuChanged it \<and>
   ant (snd (readDeltaOfDelta_loop X tes bs cb it)) = ant it \<and>
   it_done (snd (readDeltaOfDelta_loop X tes bs cb it)) = it_done it"
proof (induction bs arbitrary: cb it)
  case Nil show ?case by (simp add: readBucketValue_fields)
next
  case (Cons b bs)
  show ?case
    using Cons.IH [where cb = "push_bit 1 cb OR fst (readBits it 1)" and it = "snd (readBits it 1)"]
      readBits_fields [of it 1] readBucketValue_fields [of X "NumValueBits b" "snd (readBits it 1)"]
    by (auto simp: Let_def split: prod.splits)
qed

lemma readDeltaOfDelta_kept: "kept it (snd (readDeltaOfDelta X it tes))"
  using readBits_kept [of it 64] readBits_kept [of it 1]
    readDeltaOfDelta_loop_kept [of "snd (readBits it 1)" X tes "Buckets tes" "fst (readBits it 1)"]
  by (auto simp: readDeltaOfDelta_def split: prod.splits intro: kept_trans)

lemma readDeltaOfDelta_fields:
  "tu (snd (readDeltaOfDelta X it tes)) = tu it"
  "tuChanged (snd (readDeltaOfDelta X it tes)) = tuChanged it"
  "ant (snd (readDeltaOfDelta X it tes)) = ant it"
  "it_done (snd (readDeltaOfDelta X it tes)) = it_done it"
  using readBits_fields [of it 64] readBits_fields [of it 1]
    readDeltaOfDelta_loop_fields [of X tes "Buckets tes" "fst (readBits it 1)" "snd (readBits it 1)"]
  by (auto simp: readDeltaOfDelta_def split: prod.splits)

section \<open>The outcomes of tryReadMarker\<close>

lemma hasNext_err: "hasNext it \<Longrightarrow> err it = None"
  by (simp add: hasNext_def hasError_def)

lemma err_None_update: "err it = None \<Longrightarrow> it\<lparr>it_is := s, err := None\<rparr> = it\<lparr>it_is := s\<rparr>"
  by (cases it) simp

lemma tryPeekBits_success:
  "tryPeekBits it n = (v, True) \<Longrightarrow>
     hasNext it \<and> nat n \<le> length (it_is it) \<and> v = bitsToWord 0 (take (nat n) (it_is it))"
  by (auto simp: tryPeekBits_def PeekBits_def split: if_splits)

lemma readBits_ok:
  "hasNext it \<Longrightarrow> nat n \<le> length (it_is it) \<Longrightarrow>
     readBits it n = (bitsToWord 0 (take (nat n) (it_is it)), it\<lparr>it_is := drop (nat n) (it_is it)\<rparr>)"
  by (simp add: readBits_def ReadBits_def hasNext_err err_None_update)

lemma readBits_after_peek:
  "tryPeekBits it n = (v, True) \<Longrightarrow> readBits it n = (v, it\<lparr>it_is := drop (nat n) (it_is it)\<rparr>)"
  using tryPeekBits_success [of it n v] readBits_ok [of it n] by simp

text \<open>The four outcomes of tryReadMarker.\<close>

lemma tryReadMarker_no_peek:
  "snd (tryPeekBits it (NumOpcodeBits (mes it) + mesNumValueBits (mes it))) = False \<Longrightarrow>
     tryReadMarker X it = ((0, False), it)"
  by (subst tryReadMarker.simps,
      cases "tryPeekBits it (NumOpcodeBits (mes it) + mesNumValueBits (mes it))")
    (simp add: Let_def)

lemma tryReadMarker_no_marker:
  assumes "tryPeekBits it (NumOpcodeBits (mes it) + mesNumValueBits (mes it)) = (v, True)"
    and "drop_bit (uint_of (mesNumValueBits (mes it))) v \<noteq> mesOpcode (mes it) \<or>
         (v AND (push_bit (uint_of (mesNumValueBits (mes it))) 1 - 1) \<noteq> EndOfStream (mes it) \<and>
          v AND (push_bit (uint_of (mesNumValueBits (mes it))) 1 - 1) \<noteq> Annotation (mes it) \<and>
          v AND (push_bit (uint_of (mesNumValueBits (mes it))) 1 - 1) \<noteq> TimeUnit (mes it))"
  shows "tryReadMarker X it = ((0, False), it)"
  using assms by (subst tryReadMarker.simps) (auto simp add: Let_def)

lemma tryReadMarker_EndOfStream:
  assumes "tryPeekBits it (NumOpcodeBits (mes it) + mesNumValueBits (mes it)) = (v, True)"
    and "drop_bit (uint_of (mesNumValueBits (mes it))) v = mesOpcode (mes it)"
    and "v AND (push_bit (uint_of (mesNumValueBits (mes it))) 1 - 1) = EndOfStream (mes it)"
  shows "tryReadMarker X it =
           ((0, True), it\<lparr>it_is := drop (nat (NumOpcodeBits (mes it) + mesNumValueBits (mes it))) (it_is it),
                          it_done := True\<rparr>)"
  using assms readBits_after_peek [OF assms(1)]
  by (subst tryReadMarker.simps) (simp add: Let_def)

lemma tryReadMarker_Annotation:
  assumes "tryPeekBits it (NumOpcodeBits (mes it) + mesNumValueBits (mes it)) = (v, True)"
    and "drop_bit (uint_of (mesNumValueBits (mes it))) v = mesOpcode (mes it)"
    and "v AND (push_bit (uint_of (mesNumValueBits (mes it))) 1 - 1) \<noteq> EndOfStream (mes it)"
    and "v AND (push_bit (uint_of (mesNumValueBits (mes it))) 1 - 1) = Annotation (mes it)"
  shows "tryReadMarker X it =
           (case readMarkerOrDeltaOfDelta X
                   (readAnnotation
                      (it\<lparr>it_is := drop (nat (NumOpcodeBits (mes it) + mesNumValueBits (mes it))) (it_is it)\<rparr>)) of
              (dod, it3) \<Rightarrow> ((dod, True), it3))"
  using assms readBits_after_peek [OF assms(1)]
  by (subst tryReadMarker.simps) (simp add: Let_def)

lemma tryReadMarker_TimeUnit:
  assumes "tryPeekBits it (NumOpcodeBits (mes it) + mesNumValueBits (mes it)) = (v, True)"
    and "drop_bit (uint_of (mesNumValueBits (mes it))) v = mesOpcode (mes it)"
    and "v AND (push_bit (uint_of (mesNumValueBits (mes it))) 1 - 1) \<noteq> EndOfStream (mes it)"
    and "v AND (push_bit (uint_of (mesNumValueBits (mes it))) 1 - 1) \<noteq> Annotation (mes it)"
    and "v AND (push_bit (uint_of (mesNumValueBits (mes it))) 1 - 1) = TimeUnit (mes it)"
  shows "tryReadMarker X it =
           (case readMarkerOrDeltaOfDelta X
                   (readTimeUnit X
                      (it\<lparr>it_is := drop (nat (NumOpcodeBits (mes it) + mesNumValueBits (mes it))) (it_is it)\<rparr>)) of
              (dod, it3) \<Rightarrow> ((dod, True), it3))"
  using assms readBits_after_peek [OF assms(1)]
  by (subst tryReadMarker.simps) (simp add: Let_def)

lemma tryReadMarker_cases:
  "tryReadMarker X it = ((0, False), it)
   \<or> hasNext it \<and> tryReadMarker X it = ((0, True), (skipMarker it)\<lparr>it_done := True\<rparr>)
   \<or> hasNext it \<and> tryReadMarker X it =
        ((fst (readMarkerOrDeltaOfDelta X (readAnnotation (skipMarker it))), True),
         snd (readMarkerOrDeltaOfDelta X (readAnnotation (skipMarker it))))
   \<or> hasNext it \<and> tryReadMarker X it =
        ((fst (readMarkerOrDeltaOfDelta X (readTimeUnit X (skipMarker it))), True),
         snd (readMarkerOrDeltaOfDelta X (readTimeUnit X (skipMarker it))))"
proof -
  let ?n = "NumOpcodeBits (mes it) + mesNumValueBits (mes it)"
  let ?mask = "push_bit (uint_of (mesNumValueBits (mes it))) 1 - 1 :: uint64"
  obtain v s where pk: "tryPeekBits it ?n = (v, s)" by (metis surj_pair)
  show ?thesis
  proof (cases s)
    case False
    then show ?thesis using tryReadMarker_no_peek [of it X] pk by simp
  next
    case True
    then have pk': "tryPeekBits it ?n = (v, True)" using pk by simp
    then have hn: "hasNext it" using tryPeekBits_success by blast
    show ?thesis
    proof (cases "drop_bit (uint_of (mesNumValueBits (mes it))) v = mesOpcode (mes it)")
      case False
      then show ?thesis using tryReadMarker_no_marker [OF pk', of X] by simp
    next
      case op: True
      consider (eos) "v AND ?mask = EndOfStream (mes it)"
        | (ann) "v AND ?mask \<noteq> EndOfStream (mes it)" "v AND ?mask = Annotation (mes it)"
        | (tun) "v AND ?mask \<noteq> EndOfStream (mes it)" "v AND ?mask \<noteq> Annotation (mes it)"
                "v AND ?mask = TimeUnit (mes it)"
        | (non) "v AND ?mask \<noteq> EndOfStream (mes it)" "v AND ?mask \<noteq> Annotation (mes it)"
                "v AND ?mask \<noteq> TimeUnit (mes it)"
        by blast
      then show ?thesis
      proof cases
        case eos
        then show ?thesis using tryReadMarker_EndOfStream [OF pk' op, of X] hn
          by (simp add: skipMarker_def markerBits_def)
      next
        case ann
        then show ?thesis using tryReadMarker_Annotation [OF pk' op, of X] hn
          by (simp add: skipMarker_def markerBits_def split: prod.splits)
      next
        case tun
        then show ?thesis using tryReadMarker_TimeUnit [OF pk' op, of X] hn
          by (simp add: skipMarker_def markerBits_def split: prod.splits)
      next
        case non
        then show ?thesis using tryReadMarker_no_marker [OF pk', of X] by simp
      qed
    qed
  qed
qed

lemma remaining_skipMarker: "remaining (skipMarker it) \<le> remaining it"
  by (simp add: skipMarker_def remaining_def hasNext_def hasError_def isDone_def isClosed_def)

lemma hasNext_skipMarker [simp]: "hasNext (skipMarker it) = hasNext it"
  by (simp add: skipMarker_def hasNext_def hasError_def isDone_def isClosed_def)

text \<open>The induction principle of readMarkerOrDeltaOfDelta: one case for each way in which
  tryReadMarker ends.\<close>
lemma readMarkerOrDeltaOfDelta_induct [case_names no_marker end_of_stream annotation time_unit]:
  assumes "\<And>it. tryReadMarker X it = ((0, False), it) \<Longrightarrow> P it"
    and "\<And>it. hasNext it \<Longrightarrow>
            tryReadMarker X it = ((0, True), (skipMarker it)\<lparr>it_done := True\<rparr>) \<Longrightarrow> P it"
    and "\<And>it. hasNext it \<Longrightarrow>
            tryReadMarker X it =
              ((fst (readMarkerOrDeltaOfDelta X (readAnnotation (skipMarker it))), True),
               snd (readMarkerOrDeltaOfDelta X (readAnnotation (skipMarker it)))) \<Longrightarrow>
            P (readAnnotation (skipMarker it)) \<Longrightarrow> P it"
    and "\<And>it. hasNext it \<Longrightarrow>
            tryReadMarker X it =
              ((fst (readMarkerOrDeltaOfDelta X (readTimeUnit X (skipMarker it))), True),
               snd (readMarkerOrDeltaOfDelta X (readTimeUnit X (skipMarker it)))) \<Longrightarrow>
            P (readTimeUnit X (skipMarker it)) \<Longrightarrow> P it"
  shows "P it"
proof (induction "remaining it" arbitrary: it rule: less_induct)
  case less
  have ann: "hasNext it \<Longrightarrow> P (readAnnotation (skipMarker it))"
    using readAnnotation_remaining_less [of "skipMarker it"] remaining_skipMarker [of it]
    by (intro less) simp
  have tun: "hasNext it \<Longrightarrow> P (readTimeUnit X (skipMarker it))"
    using readTimeUnit_remaining [of "skipMarker it" X] remaining_skipMarker [of it]
    by (intro less) simp
  show ?case
    using tryReadMarker_cases [of X it] assms(1) [of it] assms(2) [of it] assms(3) [of it]
      assms(4) [of it] ann tun
    by blast
qed

lemma readMarkerOrDeltaOfDelta_no_marker:
  "tryReadMarker X it = ((0, False), it) \<Longrightarrow>
     readMarkerOrDeltaOfDelta X it =
       (case tess it (tu it) of
          None \<Rightarrow> (0, it\<lparr>err := Some (SchemeMissing (tu it))\<rparr>)
        | Some tes \<Rightarrow> readDeltaOfDelta X it tes)"
  by (subst readMarkerOrDeltaOfDelta.simps) simp

lemma readMarkerOrDeltaOfDelta_marker:
  "tryReadMarker X it = ((d, True), it') \<Longrightarrow> readMarkerOrDeltaOfDelta X it = (d, it')"
  by (subst readMarkerOrDeltaOfDelta.simps) simp

section \<open>Invariants of the timestamp read\<close>

lemma kept_skipMarker [simp]: "kept it (skipMarker it)"
  by (simp add: skipMarker_def)

lemma skipMarker_fields [simp]:
  "tuChanged (skipMarker it) = tuChanged it" "it_done (skipMarker it) = it_done it"
  "tu (skipMarker it) = tu it" "err (skipMarker it) = err it" "ant (skipMarker it) = ant it"
  by (simp_all add: skipMarker_def)

lemma kept_done [simp]: "kept it (it'\<lparr>it_done := b\<rparr>) = kept it it'"
  by (simp add: kept_def)

lemma readMarkerOrDeltaOfDelta_kept: "kept it (snd (readMarkerOrDeltaOfDelta X it))"
proof (induction it rule: readMarkerOrDeltaOfDelta_induct [where X = X])
  case (no_marker it)
  then show ?case using readDeltaOfDelta_kept [of it X]
    by (simp add: readMarkerOrDeltaOfDelta_no_marker split: option.splits)
next
  case (end_of_stream it)
  then show ?case by (simp add: readMarkerOrDeltaOfDelta_marker)
next
  case (annotation it)
  have "kept it (readAnnotation (skipMarker it))"
    using readAnnotation_kept [of "skipMarker it"] kept_skipMarker [of it] by (rule kept_trans [rotated])
  then show ?case using annotation
    by (auto simp: readMarkerOrDeltaOfDelta_marker intro: kept_trans)
next
  case (time_unit it)
  have "kept it (readTimeUnit X (skipMarker it))"
    using readTimeUnit_kept [of "skipMarker it" X] kept_skipMarker [of it] by (rule kept_trans [rotated])
  then show ?case using time_unit
    by (auto simp: readMarkerOrDeltaOfDelta_marker intro: kept_trans)
qed

lemma readMarkerOrDeltaOfDelta_tuChanged:
  "tuChanged it \<Longrightarrow> tuChanged (snd (readMarkerOrDeltaOfDelta X it))"
proof (induction it rule: readMarkerOrDeltaOfDelta_induct [where X = X])
  case (no_marker it)
  then show ?case using readDeltaOfDelta_fields [of X it]
    by (simp add: readMarkerOrDeltaOfDelta_no_marker split: option.splits)
next
  case (end_of_stream it)
  then show ?case by (simp add: readMarkerOrDeltaOfDelta_marker)
next
  case (annotation it)
  then show ?case by (simp add: readMarkerOrDeltaOfDelta_marker readAnnotation_fields)
next
  case (time_unit it)
  then show ?case by (simp add: readMarkerOrDeltaOfDelta_marker readTimeUnit_tuChanged)
qed

lemma readMarkerOrDeltaOfDelta_done_mono:
  "it_done it \<Longrightarrow> it_done (snd (readMarkerOrDeltaOfDelta X it))"
proof (induction it rule: readMarkerOrDeltaOfDelta_induct [where X = X])
  case (no_marker it)
  then show ?case using readDeltaOfDelta_fields [of X it]
    by (simp add: readMarkerOrDeltaOfDelta_no_marker split: option.splits)
next
  case (end_of_stream it)
  then show ?case by (simp add: readMarkerOrDeltaOfDelta_marker)
next
  case (annotation it)
  then show ?case by (simp add: readMarkerOrDeltaOfDelta_marker readAnnotation_fields)
next
  case (time_unit it)
  then show ?case by (simp add: readMarkerOrDeltaOfDelta_marker readTimeUnit_done)
qed

text \<open>The flag done is set by the end-of-stream marker only: when a timestamp read sets it,
  the read reports a delta-of-delta of 0 and no error.\<close>
lemma readMarkerOrDeltaOfDelta_done:
  "\<not> it_done it \<Longrightarrow> it_done (snd (readMarkerOrDeltaOfDelta X it)) \<Longrightarrow>
     fst (readMarkerOrDeltaOfDelta X it) = 0 \<and> err (snd (readMarkerOrDeltaOfDelta X it)) = None"
proof (induction it rule: readMarkerOrDeltaOfDelta_induct [where X = X])
  case (no_marker it)
  then show ?case using readDeltaOfDelta_fields [of X it]
    by (auto simp add: readMarkerOrDeltaOfDelta_no_marker split: option.splits)
next
  case (end_of_stream it)
  then show ?case by (simp add: readMarkerOrDeltaOfDelta_marker hasNext_err)
next
  case (annotation it)
  then show ?case by (simp add: readMarkerOrDeltaOfDelta_marker readAnnotation_fields)
next
  case (time_unit it)
  then show ?case by (simp add: readMarkerOrDeltaOfDelta_marker readTimeUnit_done)
qed

lemma signExtend_64 [simp]: "signExtend v 64 = v"
proof (rule bit_word_eqI)
  fix n assume "n < LENGTH(64)"
  then have "n < 63 \<or> n = 63" by auto
  then show "bit (signExtend v 64) n = bit v n"
    by (auto simp: signExtend_def bit_signed_take_bit_iff min_def)
qed

lemma streamOnly_refl [simp]: "streamOnly it it"
  by (simp add: streamOnly_def)

lemma streamOnly_trans: "streamOnly a b \<Longrightarrow> streamOnly b c \<Longrightarrow> streamOnly a c"
  by (simp add: streamOnly_def kept_def)

lemma streamOnly_readBits: "readBits it n = (v, it') \<Longrightarrow> streamOnly it it'"
  using readBits_kept [of it n] readBits_fields [of it n] by (simp add: streamOnly_def)

lemma streamOnly_fields:
  assumes "streamOnly it it'"
  shows "kept it it'" "it_done it' = it_done it" "tu it' = tu it" "tuChanged it' = tuChanged it"
    "ant it' = ant it"
  using assms by (auto simp: streamOnly_def)

lemma readXOR_streamOnly: "streamOnly it (snd (readXOR X it))"
  by (auto simp: readXOR_def Let_def split: prod.splits dest!: streamOnly_readBits)
    (blast intro: streamOnly_trans)+

lemma readXOR_terminal: "\<not> hasNext it \<Longrightarrow> readXOR X it = (0, it)"
  by (simp add: readXOR_def readBits_terminal opcodeZeroValueXOR_def)

lemma readNextValue_terminal: "\<not> hasNext it \<Longrightarrow> readNextValue X it = it\<lparr>it_xor := 0\<rparr>"
  by (cases it) (simp add: readNextValue_def readXOR_terminal)

lemma readFirstValue_terminal: "\<not> hasNext it \<Longrightarrow> readFirstValue it = it\<lparr>vb := 0, it_xor := 0\<rparr>"
  by (simp add: readFirstValue_def readBits_terminal)

lemma readNextValue_fields:
  "it_done (readNextValue X it) = it_done it" "tuChanged (readNextValue X it) = tuChanged it"
  "t (readNextValue X it) = t it" "dt (readNextValue X it) = dt it"
  "closed (readNextValue X it) = closed it"
  using streamOnly_fields [OF readXOR_streamOnly [of it X]]
  by (auto simp: readNextValue_def kept_def split: prod.splits)

lemma readFirstValue_fields:
  "it_done (readFirstValue it) = it_done it" "tuChanged (readFirstValue it) = tuChanged it"
  "t (readFirstValue it) = t it" "dt (readFirstValue it) = dt it"
  "closed (readFirstValue it) = closed it"
  using readBits_fields [of it 64] readBits_kept [of it 64]
  by (auto simp: readFirstValue_def kept_def split: prod.splits)

lemma readNextTimestamp_fields:
  "it_done (readNextTimestamp X it) = it_done (snd (readMarkerOrDeltaOfDelta X it))"
  "err (readNextTimestamp X it) = err (snd (readMarkerOrDeltaOfDelta X it))"
  "tuChanged (readNextTimestamp X it) = tuChanged (snd (readMarkerOrDeltaOfDelta X it))"
  "dt (readNextTimestamp X it) = dt it + fst (readMarkerOrDeltaOfDelta X it)"
  "t (readNextTimestamp X it) = Add (t it) (dt it + fst (readMarkerOrDeltaOfDelta X it))"
  "vb (readNextTimestamp X it) = vb it"
  using readMarkerOrDeltaOfDelta_kept [of it X]
  by (auto simp: readNextTimestamp_def kept_def Let_def split: prod.splits)

lemma readFirstTimestamp_fields:
  "it_done (readFirstTimestamp X it) =
     it_done (readNextTimestamp X ((snd (readBits it 64))\<lparr>tu := initialTimeUnit X (FromNormalizedTime (fst (readBits it 64))) (GetDefaultTimeUnit (opts it))\<rparr>))"
  "err (readFirstTimestamp X it) =
     err (readNextTimestamp X ((snd (readBits it 64))\<lparr>tu := initialTimeUnit X (FromNormalizedTime (fst (readBits it 64))) (GetDefaultTimeUnit (opts it))\<rparr>))"
  "dt (readFirstTimestamp X it) =
     dt (readNextTimestamp X ((snd (readBits it 64))\<lparr>tu := initialTimeUnit X (FromNormalizedTime (fst (readBits it 64))) (GetDefaultTimeUnit (opts it))\<rparr>))"
  "t (readFirstTimestamp X it) = Add (FromNormalizedTime (fst (readBits it 64))) (dt (readFirstTimestamp X it))"
  using readBits_kept [of it 64]
  by (auto simp: readFirstTimestamp_def kept_def Let_def split: prod.splits)

lemma Next_terminal: "\<not> hasNext it \<Longrightarrow> Next X it = (False, it)"
  by (simp add: Next_def)

lemma Next_times_terminal: "\<not> hasNext it \<Longrightarrow> Next_times X n it = it"
  by (induction n) (simp_all add: Next_terminal)

lemma hasNext_entry [simp]: "hasNext (it\<lparr>ant := a, tuChanged := c\<rparr>) = hasNext it"
  by (simp add: hasNext_def hasError_def isDone_def isClosed_def)

lemma hasNext_done: "it_done it \<Longrightarrow> \<not> hasNext it"
  by (simp add: hasNext_def isDone_def)

text \<open>The timestamp read of a call of Next: first record or later record.\<close>
lemma Next_unfold:
  "hasNext it \<Longrightarrow>
   Next X it =
     (let it3 = (if IsZero (t it) then readFirstValue (readFirstTimestamp X (it\<lparr>ant := None, tuChanged := False\<rparr>))
                 else readNextValue X (readNextTimestamp X (it\<lparr>ant := None, tuChanged := False\<rparr>)));
          it4 = (if tuChanged it3 then it3\<lparr>dt := 0\<rparr> else it3)
      in (hasNext it4, it4))"
  by (simp add: Next_def Let_def)

section \<open>The markers of a timestamp read\<close>

text \<open>What \<^verbatim>\<open>readMarkerOrDeltaOfDelta\<close> does before each kind of marker, and a call of
  \<^verbatim>\<open>Next\<close> in terms of the state in which its timestamp read starts.\<close>

lemma markerAt_Some:
  assumes "markerAt k = Some m"
  obtains v where "tryPeekBits k (NumOpcodeBits (mes k) + mesNumValueBits (mes k)) = (v, True)"
    and "drop_bit (uint_of (mesNumValueBits (mes k))) v = mesOpcode (mes k)"
    and "v AND (push_bit (uint_of (mesNumValueBits (mes k))) 1 - 1) = m"
  using assms unfolding markerAt_def markerBits_def
  by (cases "tryPeekBits k (NumOpcodeBits (mes k) + mesNumValueBits (mes k))") (auto split: if_splits)

lemma atEndOfStream_read:
  assumes "atEndOfStream k"
  shows "hasNext k" and "readMarkerOrDeltaOfDelta X k = (0, (skipMarker k)\<lparr>it_done := True\<rparr>)"
proof -
  from assms obtain v where
    p: "tryPeekBits k (NumOpcodeBits (mes k) + mesNumValueBits (mes k)) = (v, True)"
    and o: "drop_bit (uint_of (mesNumValueBits (mes k))) v = mesOpcode (mes k)"
    and m: "v AND (push_bit (uint_of (mesNumValueBits (mes k))) 1 - 1) = EndOfStream (mes k)"
    unfolding atEndOfStream_def by (rule markerAt_Some)
  show "hasNext k" using tryPeekBits_success [OF p] by simp
  show "readMarkerOrDeltaOfDelta X k = (0, (skipMarker k)\<lparr>it_done := True\<rparr>)"
    using tryReadMarker_EndOfStream [OF p o m, of X]
    by (simp add: readMarkerOrDeltaOfDelta_marker skipMarker_def markerBits_def)
qed

lemma atAnnotation_read:
  assumes "atAnnotation k"
  shows "hasNext k"
    and "readMarkerOrDeltaOfDelta X k = readMarkerOrDeltaOfDelta X (readAnnotation (skipMarker k))"
proof -
  from assms obtain v where
    p: "tryPeekBits k (NumOpcodeBits (mes k) + mesNumValueBits (mes k)) = (v, True)"
    and o: "drop_bit (uint_of (mesNumValueBits (mes k))) v = mesOpcode (mes k)"
    and m: "v AND (push_bit (uint_of (mesNumValueBits (mes k))) 1 - 1) = Annotation (mes k)"
    unfolding atAnnotation_def by (auto elim: markerAt_Some)
  have ne: "v AND (push_bit (uint_of (mesNumValueBits (mes k))) 1 - 1) \<noteq> EndOfStream (mes k)"
    using assms m by (simp add: atAnnotation_def)
  show "hasNext k" using tryPeekBits_success [OF p] by simp
  show "readMarkerOrDeltaOfDelta X k = readMarkerOrDeltaOfDelta X (readAnnotation (skipMarker k))"
    using tryReadMarker_Annotation [OF p o ne m, of X]
    by (cases "readMarkerOrDeltaOfDelta X (readAnnotation (skipMarker k))")
      (simp add: readMarkerOrDeltaOfDelta_marker skipMarker_def markerBits_def)
qed

lemma atTimeUnit_read:
  assumes "atTimeUnit k"
  shows "hasNext k"
    and "readMarkerOrDeltaOfDelta X k = readMarkerOrDeltaOfDelta X (readTimeUnit X (skipMarker k))"
proof -
  from assms obtain v where
    p: "tryPeekBits k (NumOpcodeBits (mes k) + mesNumValueBits (mes k)) = (v, True)"
    and o: "drop_bit (uint_of (mesNumValueBits (mes k))) v = mesOpcode (mes k)"
    and m: "v AND (push_bit (uint_of (mesNumValueBits (mes k))) 1 - 1) = TimeUnit (mes k)"
    unfolding atTimeUnit_def by (auto elim: markerAt_Some)
  have ne: "v AND (push_bit (uint_of (mesNumValueBits (mes k))) 1 - 1) \<noteq> EndOfStream (mes k)"
    "v AND (push_bit (uint_of (mesNumValueBits (mes k))) 1 - 1) \<noteq> Annotation (mes k)"
    using assms m by (simp_all add: atTimeUnit_def)
  show "hasNext k" using tryPeekBits_success [OF p] by simp
  show "readMarkerOrDeltaOfDelta X k = readMarkerOrDeltaOfDelta X (readTimeUnit X (skipMarker k))"
    using tryReadMarker_TimeUnit [OF p o ne m, of X]
    by (cases "readMarkerOrDeltaOfDelta X (readTimeUnit X (skipMarker k))")
      (simp add: readMarkerOrDeltaOfDelta_marker skipMarker_def markerBits_def)
qed

lemma markers_read:
  "markers X e k \<Longrightarrow> readMarkerOrDeltaOfDelta X e = readMarkerOrDeltaOfDelta X k"
  by (induction rule: markers.induct) (simp_all add: atAnnotation_read(2) atTimeUnit_read(2))

lemma markers_trans: "markers X b c \<Longrightarrow> markers X a b \<Longrightarrow> markers X a c"
  by (induction rule: markers.induct) (auto intro: markers.intros)

lemma markers_kept: "markers X e k \<Longrightarrow> kept e k \<and> it_done k = it_done e"
proof (induction rule: markers.induct)
  case here
  show ?case by simp
next
  case (annotation k)
  have "kept k (readAnnotation (skipMarker k))"
    using readAnnotation_kept [of "skipMarker k"] kept_skipMarker [of k]
    by (rule kept_trans [rotated])
  then show ?case using annotation.IH by (auto simp: readAnnotation_fields intro: kept_trans)
next
  case (time_unit k)
  have "kept k (readTimeUnit X (skipMarker k))"
    using readTimeUnit_kept [of "skipMarker k" X] kept_skipMarker [of k]
    by (rule kept_trans [rotated])
  then show ?case using time_unit.IH by (auto simp: readTimeUnit_done intro: kept_trans)
qed

lemma markers_tuChanged: "markers X e k \<Longrightarrow> tuChanged e \<Longrightarrow> tuChanged k"
  by (induction rule: markers.induct)
    (simp_all add: readAnnotation_fields readTimeUnit_tuChanged)


lemma atDeltaOfDelta_read:
  assumes "atDeltaOfDelta k"
  shows "tryReadMarker X k = ((0, False), k)"
proof -
  let ?n = "NumOpcodeBits (mes k) + mesNumValueBits (mes k)"
  let ?mask = "push_bit (uint_of (mesNumValueBits (mes k))) 1 - 1 :: uint64"
  obtain v s where pk: "tryPeekBits k ?n = (v, s)" by (metis surj_pair)
  show ?thesis
  proof (cases "s \<and> drop_bit (uint_of (mesNumValueBits (mes k))) v = mesOpcode (mes k)")
    case False
    then show ?thesis
      using tryReadMarker_no_peek [of k X] tryReadMarker_no_marker [of k v X] pk by (cases s) simp_all
  next
    case True
    then have m: "markerAt k = Some (v AND ?mask)"
      using pk by (simp add: markerAt_def markerBits_def)
    have "v AND ?mask \<noteq> EndOfStream (mes k)" "v AND ?mask \<noteq> Annotation (mes k)"
      "v AND ?mask \<noteq> TimeUnit (mes k)"
      using assms m by (auto simp: atDeltaOfDelta_def atEndOfStream_def atAnnotation_def atTimeUnit_def)
    then show ?thesis using tryReadMarker_no_marker [of k v X] pk True by simp
  qed
qed

lemma markers_hasNext: "markers X e k \<Longrightarrow> hasNext k \<Longrightarrow> hasNext e"
  by (induction rule: markers.induct) (simp_all add: atAnnotation_read(1) atTimeUnit_read(1))

lemma readBits_entry:
  "fst (readBits (it\<lparr>ant := None, tuChanged := False\<rparr>) 64) = fst (readBits it 64)"
  by (simp add: readBits_def split: prod.splits)

lemma timestampEntry_hasNext: "hasNext (timestampEntry X it) \<Longrightarrow> hasNext it"
  by (auto simp: timestampEntry_def Let_def readBits_def hasNext_def hasError_def isDone_def
      isClosed_def split: if_splits prod.splits)

lemma timestampEntry_fields:
  "kept it (timestampEntry X it)" "\<not> tuChanged (timestampEntry X it)"
  "it_done (timestampEntry X it) = it_done it"
  using readBits_kept [of "it\<lparr>ant := None, tuChanged := False\<rparr>" 64]
    readBits_fields [of "it\<lparr>ant := None, tuChanged := False\<rparr>" 64]
  by (auto simp: timestampEntry_def Let_def kept_def split: prod.splits)

text \<open>A call of Next from a state that can read, in terms of the state in which its
  timestamp read starts.\<close>
lemma Next_entry:
  assumes "hasNext it"
  shows "Next X it =
     (let r = readNextTimestamp X (timestampEntry X it);
          it3 = (if IsZero (t it)
                 then readFirstValue (r\<lparr>t := Add (FromNormalizedTime (fst (readBits it 64))) (dt r)\<rparr>)
                 else readNextValue X r);
          it4 = (if tuChanged it3 then it3\<lparr>dt := 0\<rparr> else it3)
      in (hasNext it4, it4))"
proof (cases "IsZero (t it)")
  case False
  then show ?thesis using assms by (simp add: Next_unfold timestampEntry_def Let_def)
next
  case True
  obtain nt it1 where rb: "readBits (it\<lparr>ant := None, tuChanged := False\<rparr>) 64 = (nt, it1)"
    by (metis surj_pair)
  have nt: "fst (readBits it 64) = nt" using readBits_entry [of it] rb by simp
  show ?thesis using assms True rb nt
    by (simp add: Next_unfold readFirstTimestamp_def timestampEntry_def Let_def)
qed


text \<open>The timestamp read that meets the EndOfStream marker.\<close>
lemma readNextTimestamp_end_of_stream:
  assumes "markers X e k" and "atEndOfStream k"
  shows "readNextTimestamp X e = (skipMarker k)\<lparr>it_done := True, t := Add (t e) (dt e)\<rparr>"
proof -
  have r: "readMarkerOrDeltaOfDelta X e = (0, (skipMarker k)\<lparr>it_done := True\<rparr>)"
    using markers_read [OF assms(1)] atEndOfStream_read(2) [OF assms(2)] by simp
  have k: "t k = t e" "dt k = dt e" using markers_kept [OF assms(1)] by (simp_all add: kept_def)
  show ?thesis using r k by (cases k) (simp add: readNextTimestamp_def Let_def skipMarker_def)
qed

lemma Next_end_of_stream:
  assumes "markers X (timestampEntry X it) k" and "atEndOfStream k"
  shows "Next X it =
     (False,
      if IsZero (t it)
      then (skipMarker k)\<lparr>it_done := True, vb := 0, it_xor := 0,
             t := Add (FromNormalizedTime (fst (readBits it 64))) (dt it),
             dt := (if tuChanged k then 0 else dt it)\<rparr>
      else (skipMarker k)\<lparr>it_done := True, it_xor := 0, t := Add (t it) (dt it),
             dt := (if tuChanged k then 0 else dt it)\<rparr>)"
proof -
  let ?e = "timestampEntry X it"
  let ?r = "readNextTimestamp X ?e"
  have hn: "hasNext it"
    using markers_hasNext [OF assms(1) atEndOfStream_read(1) [OF assms(2)]]
    by (rule timestampEntry_hasNext)
  have e: "t ?e = t it" "dt ?e = dt it"
    using timestampEntry_fields(1) [of it X] by (simp_all add: kept_def)
  have r: "?r = (skipMarker k)\<lparr>it_done := True, t := Add (t it) (dt it)\<rparr>"
    using readNextTimestamp_end_of_stream [OF assms] e by simp
  have d: "dt k = dt it"
    using markers_kept [OF assms(1)] e by (simp add: kept_def)
  show ?thesis
  proof (cases "IsZero (t it)")
    case False
    have "\<not> hasNext ?r" by (simp add: r hasNext_def isDone_def)
    then have v: "readNextValue X ?r = ?r\<lparr>it_xor := 0\<rparr>" by (rule readNextValue_terminal)
    show ?thesis unfolding Next_entry [OF hn] Let_def v using False d
      by (cases k) (simp add: r hasNext_def isDone_def skipMarker_def)
  next
    case True
    let ?f = "?r\<lparr>t := Add (FromNormalizedTime (fst (readBits it 64))) (dt ?r)\<rparr>"
    have "\<not> hasNext ?f" by (simp add: r hasNext_def isDone_def)
    then have v: "readFirstValue ?f = ?f\<lparr>vb := 0, it_xor := 0\<rparr>" by (rule readFirstValue_terminal)
    show ?thesis unfolding Next_entry [OF hn] Let_def v using True d
      by (cases k) (simp add: r hasNext_def isDone_def skipMarker_def)
  qed
qed

text \<open>Induction over the markers that a timestamp read consumes.\<close>
lemma markers_read_induct [case_names delta_of_delta end_of_stream annotation time_unit]:
  assumes "\<And>it. atDeltaOfDelta it \<Longrightarrow> P it"
    and "\<And>it. atEndOfStream it \<Longrightarrow> P it"
    and "\<And>it. atAnnotation it \<Longrightarrow> P (readAnnotation (skipMarker it)) \<Longrightarrow> P it"
    and "\<And>it. atTimeUnit it \<Longrightarrow> P (readTimeUnit X (skipMarker it)) \<Longrightarrow> P it"
  shows "P it"
proof (induction "remaining it" arbitrary: it rule: less_induct)
  case less
  have ann: "atAnnotation it \<Longrightarrow> P (readAnnotation (skipMarker it))"
    using readAnnotation_remaining_less [of "skipMarker it"] remaining_skipMarker [of it]
      atAnnotation_read(1) [of it]
    by (intro less) simp
  have tun: "atTimeUnit it \<Longrightarrow> P (readTimeUnit X (skipMarker it))"
    using readTimeUnit_remaining [of "skipMarker it" X] remaining_skipMarker [of it]
      atTimeUnit_read(1) [of it]
    by (intro less) simp
  show ?case
    using assms(1) [of it] assms(2) [of it] assms(3) [of it] assms(4) [of it] ann tun
    unfolding atDeltaOfDelta_def by blast
qed

text \<open>The flag done is set by a timestamp read only where it meets the EndOfStream
  marker.\<close>
lemma readMarkerOrDeltaOfDelta_done_markers:
  "\<not> it_done e \<Longrightarrow> it_done (snd (readMarkerOrDeltaOfDelta X e)) \<Longrightarrow>
     \<exists>k. markers X e k \<and> atEndOfStream k"
proof (induction e rule: markers_read_induct [where X = X])
  case (delta_of_delta it)
  then show ?case
    using readDeltaOfDelta_fields [of X it] atDeltaOfDelta_read [of it X]
    by (auto simp: readMarkerOrDeltaOfDelta_no_marker split: option.splits)
next
  case (end_of_stream it)
  then show ?case by (blast intro: markers.here)
next
  case (annotation it)
  let ?a = "readAnnotation (skipMarker it)"
  have "\<not> it_done ?a" using annotation.prems(1) by (simp add: readAnnotation_fields)
  moreover have "it_done (snd (readMarkerOrDeltaOfDelta X ?a))"
    using annotation.prems(2) atAnnotation_read(2) [OF annotation.hyps, of X] by simp
  ultimately obtain k where k: "markers X ?a k" "atEndOfStream k"
    using annotation.IH by blast
  have "markers X it ?a" using annotation.hyps by (intro markers.annotation markers.here)
  then show ?case using k markers_trans by blast
next
  case (time_unit it)
  let ?a = "readTimeUnit X (skipMarker it)"
  have "\<not> it_done ?a" using time_unit.prems(1) by (simp add: readTimeUnit_done)
  moreover have "it_done (snd (readMarkerOrDeltaOfDelta X ?a))"
    using time_unit.prems(2) atTimeUnit_read(2) [OF time_unit.hyps, of X] by simp
  ultimately obtain k where k: "markers X ?a k" "atEndOfStream k"
    using time_unit.IH by blast
  have "markers X it ?a" using time_unit.hyps by (intro markers.time_unit markers.here)
  then show ?case using k markers_trans by blast
qed

text \<open>A call of Next that starts able to read ends with done set exactly when its timestamp
  read, after zero or more Annotation and TimeUnit markers, meets the EndOfStream marker.\<close>
lemma Next_done_iff:
  assumes "hasNext it"
  shows "it_done (snd (Next X it)) \<longleftrightarrow> (\<exists>k. markers X (timestampEntry X it) k \<and> atEndOfStream k)"
proof
  assume d: "it_done (snd (Next X it))"
  have "it_done (snd (readMarkerOrDeltaOfDelta X (timestampEntry X it)))"
    using d unfolding Next_entry [OF assms] Let_def
    by (simp add: readNextValue_fields readFirstValue_fields readNextTimestamp_fields
        split: if_splits)
  moreover have "\<not> it_done (timestampEntry X it)"
    using assms by (simp add: timestampEntry_fields hasNext_def isDone_def)
  ultimately show "\<exists>k. markers X (timestampEntry X it) k \<and> atEndOfStream k"
    by (rule readMarkerOrDeltaOfDelta_done_markers [rotated])
next
  assume "\<exists>k. markers X (timestampEntry X it) k \<and> atEndOfStream k"
  then show "it_done (snd (Next X it))" by (auto simp: Next_end_of_stream)
qed

lemma readTimeUnit_changes:
  assumes "IsValid X (ucast (fst (readBits j 8)))" and "ucast (fst (readBits j 8)) \<noteq> tu j"
  shows "tuChanged (readTimeUnit X j)"
  using assms readBits_fields(1) [of j 8]
  by (cases "readBits j 8") (simp add: readTimeUnit_def Let_def)

section \<open>Reading from a stream that holds enough bits\<close>

lemma tryReadMarker_fails:
  "\<not> snd (fst (tryReadMarker X it)) \<Longrightarrow> tryReadMarker X it = ((0, False), it)"
  using tryReadMarker_cases [of X it] by auto

lemma readTimeUnit_ok:
  assumes "hasNext it" "8 \<le> length (it_is it)"
  shows "readTimeUnit X it =
           (let c = (ucast (bitsToWord 0 (take 8 (it_is it))) :: Unit) in
            it\<lparr>it_is := drop 8 (it_is it),
               tuChanged := (IsValid X c \<and> c \<noteq> tu it) \<or> tuChanged it,
               tu := c\<rparr>)"
  using assms readBits_ok [of it 8]
  by (cases it) (auto simp: readTimeUnit_def Let_def)

lemma hasNext_NewReaderIterator: "hasNext (NewReaderIterator r os)"
  by (simp add: NewReaderIterator_def hasNext_def hasError_def isDone_def isClosed_def)

lemma hasNext_it_is [simp]: "hasNext (it\<lparr>it_is := s\<rparr>) = hasNext it"
  by (simp add: hasNext_def hasError_def isDone_def isClosed_def)



lemma bitsToWord_single [simp]: "bitsToWord 0 [b] = (if b then 1 else 0)"
  by simp

lemma bit_bitsToWord:
  "bit (bitsToWord acc bs) n \<longleftrightarrow>
     n < 64 \<and> (if n < length bs then rev bs ! n else bit acc (n - length bs))"
proof (induction bs arbitrary: acc n)
  case Nil
  then show ?case by (auto dest: bit_imp_le_length)
next
  case (Cons b bs)
  have d: "bit (acc * 2) k \<longleftrightarrow> k < 64 \<and> k \<noteq> 0 \<and> bit acc (k - 1)" for k
    using bit_double_iff [of acc k] by (auto simp: mult.commute dest: bit_imp_le_length)
  show ?case
    by (auto simp: Cons.IH nth_append bit_or_iff d bit_1_iff Suc_diff_le
        less_Suc_eq not_less)
qed

lemma bitsToWord_bound:
  assumes "length bs < 64"
  shows "uint (bitsToWord 0 bs) < 2 ^ length bs"
proof -
  have "take_bit (length bs) (uint (bitsToWord 0 bs)) = uint (bitsToWord 0 bs)"
    by (rule bit_eqI) (auto simp: bit_take_bit_iff bit_uint_iff bit_bitsToWord)
  then show ?thesis by (simp add: take_bit_int_eq_self_iff)
qed

lemma six_bits:
  assumes "length bs = 6"
  shows "0 \<le> sint (bitsToWord 0 bs) \<and> sint (bitsToWord 0 bs) < 64"
proof -
  have u: "uint (bitsToWord 0 bs) < 64" using bitsToWord_bound [of bs] assms by simp
  have "sint (bitsToWord 0 bs) = signed_take_bit 63 (uint (bitsToWord 0 bs))"
    by (simp add: sint_uint)
  also have "\<dots> = uint (bitsToWord 0 bs)"
  proof (rule signed_take_bit_int_eq_self)
    have "- (2 ^ 63) \<le> (0::int)" by simp
    then show "- (2 ^ 63) \<le> uint (bitsToWord 0 bs)"
      using uint_nonnegative [of "bitsToWord 0 bs"] by (rule order_trans)
    have "(64::int) < 2 ^ 63" by simp
    then show "uint (bitsToWord 0 bs) < 2 ^ 63" using u by (rule less_trans [rotated])
  qed
  finally show ?thesis using u by simp
qed

lemma uint_of_small: "0 \<le> n \<Longrightarrow> n < 2 ^ 64 \<Longrightarrow> uint_of n = nat n"
  by (simp add: uint_of_def)

lemma uint_of_negative:
  assumes "- 64 \<le> n" "n < 0" shows "64 \<le> uint_of n"
proof -
  have "(n + 2 ^ 64) mod 2 ^ 64 = n + 2 ^ 64"
    using assms by (intro mod_pos_pos_trivial) simp_all
  then have "n mod 2 ^ 64 = n + 2 ^ 64" by simp
  then show ?thesis using assms by (simp add: uint_of_def)
qed

lemma push_bit_out: "64 \<le> n \<Longrightarrow> push_bit n (w :: uint64) = 0"
  by (rule bit_word_eqI) (auto simp: bit_push_bit_iff)

lemma Next_config:
  "opts (snd (Next X it)) = opts it \<and> tess (snd (Next X it)) = tess it \<and>
   mes (snd (Next X it)) = mes it"
proof (cases "hasNext it")
  case False
  then show ?thesis by (simp add: Next_def)
next
  case True
  let ?it1 = "it\<lparr>ant := None, tuChanged := False\<rparr>"
  let ?f = "\<lambda>j. (opts j, tess j, mes j)"
  have rb: "?f (snd (readBits j n)) = ?f j" for j n
    using readBits_kept [of j n] by (simp add: kept_def)
  have md: "?f (snd (readMarkerOrDeltaOfDelta X j)) = ?f j" for j
    using readMarkerOrDeltaOfDelta_kept [of j X] by (simp add: kept_def)
  have nt: "?f (readNextTimestamp X j) = ?f j" for j
    using md [of j] by (cases "readMarkerOrDeltaOfDelta X j") (simp add: readNextTimestamp_def Let_def)
  have ft: "?f (readFirstTimestamp X j) = ?f j" for j
    using rb [of j 64] nt [of "(snd (readBits j 64))\<lparr>tu := initialTimeUnit X (FromNormalizedTime (fst (readBits j 64))) (GetDefaultTimeUnit (opts (snd (readBits j 64))))\<rparr>"]
    by (cases "readBits j 64") (simp add: readFirstTimestamp_def Let_def)
  have fv: "?f (readFirstValue j) = ?f j" for j
    using rb [of j 64] by (cases "readBits j 64") (simp add: readFirstValue_def Let_def)
  have nv: "?f (readNextValue X j) = ?f j" for j
    using streamOnly_fields(1) [OF readXOR_streamOnly [of j X]]
    by (cases "readXOR X j") (simp add: readNextValue_def kept_def Let_def)
  have "?f (snd (Next X it)) = ?f it"
    using True ft [of ?it1] nt [of ?it1] fv [of "readFirstTimestamp X ?it1"]
      nv [of "readNextTimestamp X ?it1"]
    by (simp add: Next_unfold Let_def)
  then show ?thesis by simp
qed

lemma readBits_tu_update:
  "readBits (it\<lparr>tu := u\<rparr>) n = (fst (readBits it n), (snd (readBits it n))\<lparr>tu := u\<rparr>)"
  by (simp add: readBits_def hasNext_def hasError_def isDone_def isClosed_def split: prod.splits)

lemma readFirstTimestamp_tu_irrelevant:
  "readFirstTimestamp X (it\<lparr>tu := u\<rparr>) = readFirstTimestamp X it"
  using readBits_kept [of it 64]
  by (cases "readBits it 64") (simp add: readFirstTimestamp_def readBits_tu_update Let_def kept_def)

lemma Next_first_irrelevant:
  assumes "hasNext it" "IsZero (t it)"
  shows "Next X (it\<lparr>tuChanged := b, tu := u\<rparr>) = Next X it"
proof -
  have h: "hasNext (it\<lparr>tuChanged := b, tu := u\<rparr>)"
    using assms(1) by (simp add: hasNext_def hasError_def isDone_def isClosed_def)
  have e: "it\<lparr>tuChanged := b, tu := u, ant := None, tuChanged := False\<rparr> =
           (it\<lparr>ant := None, tuChanged := False\<rparr>)\<lparr>tu := u\<rparr>"
    by simp
  show ?thesis
    using assms(2)
    by (simp add: Next_unfold [OF h] Next_unfold [OF assms(1)] e readFirstTimestamp_tu_irrelevant
        del: readerIterator.update_convs)
qed

lemma decode_first_irrelevant:
  assumes "hasNext it" "IsZero (t it)"
  shows "decode X n (it\<lparr>tuChanged := b, tu := u\<rparr>) = decode X n it"
  using Next_first_irrelevant [OF assms] by (cases n) simp_all

lemma Next_times_config:
  "opts (Next_times X n it) = opts it \<and> tess (Next_times X n it) = tess it \<and>
   mes (Next_times X n it) = mes it"
  by (induction n arbitrary: it) (simp_all add: Next_config)

section \<open>The evaluation streams\<close>

text \<open>Each iterator of the configuration is evaluated once: after the first call of Next it
  is the iterator \<open>after_first\<close> on the rest of its stream.\<close>

lemma observe_eqI:
  "observe a = observe b \<Longrightarrow> opts a = opts b \<Longrightarrow> tess a = tess b \<Longrightarrow> mes a = mes b \<Longrightarrow>
     a = b"
  by (cases a, cases b) (simp add: observe_def)

lemma first_Next_config:
  "opts (snd (Next X (NewReaderIterator r os))) = os"
  "tess (snd (Next X (NewReaderIterator r os))) = GetTimeEncodingSchemes os"
  "mes (snd (Next X (NewReaderIterator r os))) = GetMarkerEncodingScheme os"
  using Next_config [of X "NewReaderIterator r os"] by (simp_all add: NewReaderIterator_def)

lemma after_first_config:
  "opts (after_first os r) = os" "tess (after_first os r) = GetTimeEncodingSchemes os"
  "mes (after_first os r) = GetMarkerEncodingScheme os"
  by (simp_all add: after_first_def NewReaderIterator_def)

lemma it_two_eq: "it_two = after_first opts0 [0xFD]"
proof (rule observe_eqI)
  show "observe it_two = observe (after_first opts0 [0xFD])"
    by code_simp
qed (simp_all add: it_two_def first_Next_config after_first_config)

lemma it_invalid_unit_eq: "it_invalid_unit = after_first opts0 [0xFF, 0xFF, 0x00, 0x00]"
proof (rule observe_eqI)
  show "observe it_invalid_unit = observe (after_first opts0 [0xFF, 0xFF, 0x00, 0x00])"
    by code_simp
qed (simp_all add: it_invalid_unit_def first_Next_config after_first_config)

lemma it_unit_ms_eq: "it_unit_ms = after_first opts0 [0xFF, 0x02, 0, 0, 0, 0, 0x1D, 0xCD, 0x65, 0x00, 0x00]"
proof (rule observe_eqI)
  show "observe it_unit_ms = observe (after_first opts0 [0xFF, 0x02, 0, 0, 0, 0, 0x1D, 0xCD, 0x65, 0x00, 0x00])"
    by code_simp
qed (simp_all add: it_unit_ms_def first_Next_config after_first_config)

lemma it_ms_eq: "it_ms = after_first opts_ms [0xFF, 0x02, 0, 0, 0, 0, 0x1D, 0xCD, 0x65, 0x00, 0x00]"
proof (rule observe_eqI)
  show "observe it_ms = observe (after_first opts_ms [0xFF, 0x02, 0, 0, 0, 0, 0x1D, 0xCD, 0x65, 0x00, 0x00])"
    by code_simp
qed (simp_all add: it_ms_def first_Next_config after_first_config)

lemma it_cut_eq: "it_cut = after_first opts0 [0xFF]"
proof (rule observe_eqI)
  show "observe it_cut = observe (after_first opts0 [0xFF])"
    by code_simp
qed (simp_all add: it_cut_def first_Next_config after_first_config)

lemma it_ann_eq: "it_ann = after_first opts0 [0xFE, 0x06, 0xDE, 0xAD, 0xBE, 0xEF, 0x00]"
proof (rule observe_eqI)
  show "observe it_ann = observe (after_first opts0 [0xFE, 0x06, 0xDE, 0xAD, 0xBE, 0xEF, 0x00])"
    by code_simp
qed (simp_all add: it_ann_def first_Next_config after_first_config)

lemma it_ann_bad_eq: "it_ann_bad = after_first opts0 [0xFE, 0x01, 0x00]"
proof (rule observe_eqI)
  show "observe it_ann_bad = observe (after_first opts0 [0xFE, 0x01, 0x00])"
    by code_simp
qed (simp_all add: it_ann_bad_def first_Next_config after_first_config)

lemma it_ann_eos_eq: "it_ann_eos = after_first opts0 [0xFE, 0x06, 0xDE, 0xAD, 0xBE, 0xEF, 0xFD]"
proof (rule observe_eqI)
  show "observe it_ann_eos = observe (after_first opts0 [0xFE, 0x06, 0xDE, 0xAD, 0xBE, 0xEF, 0xFD])"
    by code_simp
qed (simp_all add: it_ann_eos_def first_Next_config after_first_config)

lemma it_zero_eq: "it_zero = at_zero"
proof (rule observe_eqI)
  show "observe it_zero = observe at_zero"
    by code_simp
qed (simp_all add: it_zero_def at_zero_def Next_times_config NewReaderIterator_def)

lemmas evaluated =
  it_two_eq it_invalid_unit_eq it_unit_ms_eq it_ms_eq it_cut_eq it_ann_eq it_ann_bad_eq
  it_ann_eos_eq it_zero_eq

section \<open>The claims\<close>

subsection \<open>Terminal states\<close>

text \<open>Once the iterator cannot read (an error, done or closed), Next returns false and
  leaves every field as it is, and so do the readers of fields: no bit is consumed and the
  error is not replaced.\<close>
lemma terminal_is_absorbing:
  assumes "\<not> hasNext it"
  shows "Next X it = (False, it)" and "Next_times X n it = it" and "readBits it k = (0, it)"
    and "readVarint it = (0, it)" and "tryPeekBits it k = (0, False)"
    and "hasError it \<longrightarrow> timeUnit X it = (0, it)"
  using assms
  by (simp_all add: Next_terminal Next_times_terminal readBits_terminal readVarint_terminal
      tryPeekBits_terminal timeUnit_def)

text \<open>Claim C4 says that the first error stays: once err is set, Err keeps returning it and
  nothing overwrites it. Between calls of Next this holds (\<open>terminal_is_absorbing\<close>). Within
  the call in which the error arises it does not: \<^verbatim>\<open>readMarkerOrDeltaOfDelta\<close> assigns
  SchemeMissing without looking at the error, where \<^verbatim>\<open>readBits\<close>, \<^verbatim>\<open>readVarint\<close>,
  \<^verbatim>\<open>readAnnotation\<close> and \<^verbatim>\<open>timeUnit\<close> all test it first. On \<open>stream_cut\<close> the second call of
  Next reads a TimeUnit marker, fails to read its code with UnexpectedEof, stores the unit 0,
  then recurs, finds no scheme for the unit 0 and replaces the error: Err returns
  SchemeMissing.\<close>
theorem first_error_overwritten_evaluated:
  "hasNext it_cut \<and> ant it_cut = None \<and> \<not> tuChanged it_cut \<and>
   tryPeekBits it_cut (markerBits it_cut) = (255, True) \<and>
   Err (readTimeUnit X0 (skipMarker it_cut)) = Some UnexpectedEof \<and>
   tess it_cut 0 = None \<and>
   fst (Next X0 it_cut) = False \<and>
   Err (snd (Next X0 it_cut)) = Some (SchemeMissing 0)"
proof -
  have b: "hasNext it_cut \<and> ant it_cut = None \<and> \<not> tuChanged it_cut \<and>
           tryPeekBits it_cut (markerBits it_cut) = (255, True) \<and> tess it_cut 0 = None"
    unfolding evaluated by code_simp
  have m: "Err (readTimeUnit X0 (skipMarker it_cut)) = Some UnexpectedEof"
    unfolding evaluated by code_simp
  have o: "observe (snd (Next X0 it_cut)) =
      ([], unixToInternal + 11000000000, 5000000000, 0x3FF8000000000000, 0, False,
       Some (SchemeMissing 0), None, 0, False, False)"
    unfolding evaluated by code_simp
  have f: "fst (Next X0 it_cut) = False"
    unfolding evaluated by code_simp
  show ?thesis using b m o f by (simp add: observe_def Err_def)
qed

subsection \<open>Termination at the end-of-stream marker\<close>

text \<open>Claim C5. For every stream in which the EndOfStream marker is consumed during a call
  of Next, that call and all later calls return false, and Err returns nil. The marker is
  consumed in a call when the timestamp read of the call, started in the state
  \<open>timestampEntry\<close>, stands before the EndOfStream marker after zero or more Annotation and
  TimeUnit markers. Then the call returns false with done set, no error and the stream just
  behind the marker; every later call returns false and changes nothing, and Err stays
  nil. By \<open>Next_done_iff\<close> these are all the calls that set done.\<close>
theorem end_of_stream_terminates:
  assumes "markers X (timestampEntry X it) k" and "atEndOfStream k"
  shows "fst (Next X it) = False \<and> it_done (snd (Next X it)) \<and> Err (snd (Next X it)) = None \<and>
         it_is (snd (Next X it)) = drop (nat (markerBits k)) (it_is k) \<and>
         (\<forall>n. Next X (Next_times X n (snd (Next X it))) = (False, snd (Next X it)) \<and>
              Err (Next_times X n (snd (Next X it))) = None)"
proof -
  have e: "err k = None" using atEndOfStream_read(1) [OF assms(2)] by (rule hasNext_err)
  have d: "it_done (snd (Next X it))" by (simp add: Next_end_of_stream [OF assms])
  then have tm: "\<not> hasNext (snd (Next X it))" by (rule hasNext_done)
  have er: "Err (snd (Next X it)) = None"
    using e by (simp add: Next_end_of_stream [OF assms] Err_def skipMarker_def)
  have s: "it_is (snd (Next X it)) = drop (nat (markerBits k)) (it_is k)"
    by (simp add: Next_end_of_stream [OF assms] skipMarker_def)
  have f: "fst (Next X it) = False" by (simp add: Next_end_of_stream [OF assms])
  show ?thesis using f d er s tm by (simp add: Next_times_terminal Next_terminal)
qed

theorem end_of_stream_terminates_witness:
  "markers X0 (timestampEntry X0 it_ann_eos)
     (readAnnotation (skipMarker (timestampEntry X0 it_ann_eos))) \<and>
   atEndOfStream (readAnnotation (skipMarker (timestampEntry X0 it_ann_eos))) \<and>
   fst (Next X0 it_ann_eos) = False \<and> it_done (snd (Next X0 it_ann_eos)) \<and>
   Err (snd (Next X0 it_ann_eos)) = None \<and> it_is (snd (Next X0 it_ann_eos)) = [] \<and>
   (\<forall>n. Next X0 (Next_times X0 n (snd (Next X0 it_ann_eos))) = (False, snd (Next X0 it_ann_eos)) \<and>
        Err (Next_times X0 n (snd (Next X0 it_ann_eos))) = None)"
proof -
  let ?e = "timestampEntry X0 it_ann_eos"
  let ?k = "readAnnotation (skipMarker ?e)"
  have a: "atAnnotation ?e" unfolding evaluated by code_simp
  have b: "atEndOfStream ?k" unfolding evaluated by code_simp
  have c: "drop (nat (markerBits ?k)) (it_is ?k) = []" unfolding evaluated by code_simp
  have m: "markers X0 ?e ?k" using a by (intro markers.annotation markers.here)
  show ?thesis using end_of_stream_terminates [OF m b] m b c by simp
qed

text \<open>Claim C10 says that on the call of Next that consumes the EndOfStream marker the
  timestamp becomes \<open>t + dt\<close> and the value bits vb stay as they are. On the first-record
  path they do not, and the iterator takes that path whenever t is the zero instant, which a
  decoded stream can reach. On \<open>stream_zero\<close> six calls of Next return true and bring t to the
  zero instant, with dt = 0 and the value 1.5. The seventh call reads 64 bits as a first
  timestamp, consumes the EndOfStream marker and returns false without error: t is then
  one second after the epoch, not \<open>t + dt\<close>, and vb is 0, not the bits of 1.5, because
  \<^verbatim>\<open>readFirstValue\<close> stores the 0 of the short-circuited read.\<close>
theorem end_of_stream_first_record_counterexample:
  "decode X0 7 (NewReaderIterator stream_zero opts_ms) =
     [(True, ((44135596800000000000, 0x3FF8000000000000), 2, None), None),
      (True, ((35135596800000000000, 0x3FF8000000000000), 1, None), None),
      (True, ((26135596800000000000, 0x3FF8000000000000), 2, None), None),
      (True, ((17135596800000000000, 0x3FF8000000000000), 1, None), None),
      (True, ((8135596800000000000, 0x3FF8000000000000), 2, None), None),
      (True, ((0, 0x3FF8000000000000), 1, None), None),
      (False, ((62135596801000000000, 0), 1, None), None)] \<and>
   it_zero = Next_times X0 6 (NewReaderIterator stream_zero opts_ms) \<and>
   hasNext it_zero \<and> IsZero (t it_zero) \<and> dt it_zero = 0 \<and> vb it_zero = 0x3FF8000000000000 \<and>
   atEndOfStream (timestampEntry X0 it_zero) \<and>
   fst (Next X0 it_zero) = False \<and> it_done (snd (Next X0 it_zero)) \<and>
   Err (snd (Next X0 it_zero)) = None \<and>
   vb (snd (Next X0 it_zero)) = 0 \<and> vb (snd (Next X0 it_zero)) \<noteq> vb it_zero \<and>
   t (snd (Next X0 it_zero)) = 62135596801000000000 \<and>
   t (snd (Next X0 it_zero)) \<noteq> Add (t it_zero) (dt it_zero)"
proof -
  have a: "decode X0 7 (NewReaderIterator stream_zero opts_ms) =
     [(True, ((44135596800000000000, 0x3FF8000000000000), 2, None), None),
      (True, ((35135596800000000000, 0x3FF8000000000000), 1, None), None),
      (True, ((26135596800000000000, 0x3FF8000000000000), 2, None), None),
      (True, ((17135596800000000000, 0x3FF8000000000000), 1, None), None),
      (True, ((8135596800000000000, 0x3FF8000000000000), 2, None), None),
      (True, ((0, 0x3FF8000000000000), 1, None), None),
      (False, ((62135596801000000000, 0), 1, None), None)]"
    by code_simp
  have b: "hasNext it_zero" "IsZero (t it_zero)" "dt it_zero = 0"
    "vb it_zero = 0x3FF8000000000000" "Add (t it_zero) (dt it_zero) = 0"
    unfolding evaluated by code_simp+
  have c: "atEndOfStream (timestampEntry X0 it_zero)" unfolding evaluated by code_simp
  have d: "observe (snd (Next X0 it_zero)) =
      ([False, False, False], 62135596801000000000, 0, 0, 0, True, None, None, 1, False, False)"
    unfolding evaluated by code_simp
  have e: "fst (Next X0 it_zero) = False" unfolding evaluated by code_simp
  show ?thesis using a b c d e by (simp add: observe_def Err_def it_zero_def [symmetric])
qed

text \<open>Claim C10, amended. On the call of Next that consumes the EndOfStream marker the call
  returns false and no bit behind the marker is consumed. When t is not the zero instant, t
  becomes \<open>t + dt\<close> and vb is unchanged. When t is the zero instant, the call has read 64
  bits as the first timestamp: t becomes that timestamp plus dt, and vb becomes 0. Every
  later read of bits answers 0 without touching the stream.\<close>
theorem end_of_stream_timestamp:
  assumes "markers X (timestampEntry X it) k" and "atEndOfStream k"
  shows "fst (Next X it) = False \<and>
         (\<not> IsZero (t it) \<longrightarrow>
            t (snd (Next X it)) = Add (t it) (dt it) \<and> vb (snd (Next X it)) = vb it) \<and>
         (IsZero (t it) \<longrightarrow>
            t (snd (Next X it)) = Add (FromNormalizedTime (fst (readBits it 64))) (dt it) \<and>
            vb (snd (Next X it)) = 0) \<and>
         it_is (snd (Next X it)) = drop (nat (markerBits k)) (it_is k) \<and>
         (\<forall>n. readBits (snd (Next X it)) n = (0, snd (Next X it)))"
proof -
  have v: "vb k = vb it"
    using markers_kept [OF assms(1)] timestampEntry_fields(1) [of it X] by (simp add: kept_def)
  have "it_done (snd (Next X it))" by (simp add: Next_end_of_stream [OF assms])
  then have tm: "\<not> hasNext (snd (Next X it))" by (rule hasNext_done)
  have f: "fst (Next X it) = False" by (simp add: Next_end_of_stream [OF assms])
  have s: "it_is (snd (Next X it)) = drop (nat (markerBits k)) (it_is k)"
    by (simp add: Next_end_of_stream [OF assms] skipMarker_def)
  have later: "t (snd (Next X it)) = Add (t it) (dt it) \<and> vb (snd (Next X it)) = vb it"
    if "\<not> IsZero (t it)"
    using that v by (simp add: Next_end_of_stream [OF assms] skipMarker_def)
  have first: "t (snd (Next X it)) = Add (FromNormalizedTime (fst (readBits it 64))) (dt it) \<and>
               vb (snd (Next X it)) = 0"
    if "IsZero (t it)"
    using that by (simp add: Next_end_of_stream [OF assms])
  show ?thesis using f s tm later first by (simp add: readBits_terminal)
qed

theorem end_of_stream_timestamp_witness:
  "markers X0 (timestampEntry X0 it_two) (timestampEntry X0 it_two) \<and>
   atEndOfStream (timestampEntry X0 it_two) \<and> \<not> IsZero (t it_two) \<and>
   fst (Next X0 it_two) = False \<and>
   t (snd (Next X0 it_two)) = Add (t it_two) (dt it_two) \<and> dt it_two = 5000000000 \<and>
   vb (snd (Next X0 it_two)) = vb it_two \<and> vb it_two = 0x3FF8000000000000 \<and>
   it_is (snd (Next X0 it_two)) = [] \<and>
   markers X0 (timestampEntry X0 it_zero) (timestampEntry X0 it_zero) \<and>
   atEndOfStream (timestampEntry X0 it_zero) \<and> IsZero (t it_zero) \<and>
   fst (Next X0 it_zero) = False \<and>
   t (snd (Next X0 it_zero)) = unixToInternal + 1000000000 \<and>
   vb it_zero = 0x3FF8000000000000 \<and> vb (snd (Next X0 it_zero)) = 0 \<and>
   it_is (snd (Next X0 it_zero)) = [False, False, False]"
proof -
  let ?e = "timestampEntry X0 it_two" and ?z = "timestampEntry X0 it_zero"
  have a1: "atEndOfStream ?e" unfolding evaluated by code_simp
  have a2: "\<not> IsZero (t it_two) \<and> dt it_two = 5000000000 \<and> vb it_two = 0x3FF8000000000000"
    unfolding evaluated by code_simp
  have a3: "drop (nat (markerBits ?e)) (it_is ?e) = []" unfolding evaluated by code_simp
  have b1: "atEndOfStream ?z" unfolding evaluated by code_simp
  have b2: "IsZero (t it_zero) \<and> vb it_zero = 0x3FF8000000000000 \<and>
            Add (FromNormalizedTime (fst (readBits it_zero 64))) (dt it_zero) =
              unixToInternal + 1000000000"
    unfolding evaluated by code_simp
  have b3: "drop (nat (markerBits ?z)) (it_is ?z) = [False, False, False]"
    unfolding evaluated by code_simp
  show ?thesis
    using end_of_stream_timestamp [OF markers.here a1]
      end_of_stream_timestamp [OF markers.here b1] a1 a2 a3 b1 b2 b3
    by (simp add: markers.here)
qed

subsection \<open>The TimeUnit marker\<close>

text \<open>Claim C1 says that a TimeUnit marker with a code that is no valid unit leaves the active
  unit as it was. The code does not: \<^verbatim>\<open>readTimeUnit\<close> guards only the flag tuChanged with the
  validity test and assigns the code to \<open>tu\<close> in every case. On \<open>stream_invalid_unit\<close> the
  unit is 1 before the second call of Next and 255 after it, and the call ends with
  SchemeMissing for the unit 255.\<close>
theorem invalid_time_unit_counterexample:
  "tu it_invalid_unit = 1 \<and> hasNext it_invalid_unit \<and> \<not> IsValid X0 255 \<and>
   tu (snd (Next X0 it_invalid_unit)) = 255 \<and>
   \<not> tuChanged (snd (Next X0 it_invalid_unit)) \<and>
   fst (Next X0 it_invalid_unit) = False \<and>
   Err (snd (Next X0 it_invalid_unit)) = Some (SchemeMissing 255)"
proof -
  have b: "tu it_invalid_unit = 1 \<and> hasNext it_invalid_unit \<and> \<not> IsValid X0 255"
    unfolding evaluated by code_simp
  have o: "observe (snd (Next X0 it_invalid_unit)) =
      (newIStream [0, 0], unixToInternal + 11000000000, 5000000000, 0x3FF8000000000000, 0,
       False, Some (SchemeMissing 255), None, 255, False, False)"
    unfolding evaluated by code_simp
  have f: "fst (Next X0 it_invalid_unit) = False"
    unfolding evaluated by code_simp
  show ?thesis using b o f by (simp add: observe_def Err_def)
qed

text \<open>Claim C1, amended. When a TimeUnit marker carries a code that is no valid unit, the
  decoder consumes the marker and the code, stores the code as the active unit, leaves
  tuChanged and the error as they were, and goes on to read a marker or a delta-of-delta
  under the stored code.\<close>
theorem invalid_time_unit_is_stored:
  assumes "tryPeekBits it (markerBits it) = (v, True)"
    and "drop_bit (uint_of (mesNumValueBits (mes it))) v = mesOpcode (mes it)"
    and "v AND (push_bit (uint_of (mesNumValueBits (mes it))) 1 - 1) \<noteq> EndOfStream (mes it)"
    and "v AND (push_bit (uint_of (mesNumValueBits (mes it))) 1 - 1) \<noteq> Annotation (mes it)"
    and "v AND (push_bit (uint_of (mesNumValueBits (mes it))) 1 - 1) = TimeUnit (mes it)"
    and "8 \<le> length (it_is (skipMarker it))"
    and "c = ucast (bitsToWord 0 (take 8 (it_is (skipMarker it))))"
    and "\<not> IsValid X c"
  shows "readTimeUnit X (skipMarker it) = (skipMarker it)\<lparr>it_is := drop 8 (it_is (skipMarker it)), tu := c\<rparr> \<and>
         tryReadMarker X it =
           ((fst (readMarkerOrDeltaOfDelta X ((skipMarker it)\<lparr>it_is := drop 8 (it_is (skipMarker it)), tu := c\<rparr>)), True),
            snd (readMarkerOrDeltaOfDelta X ((skipMarker it)\<lparr>it_is := drop 8 (it_is (skipMarker it)), tu := c\<rparr>)))"
proof -
  have hn: "hasNext (skipMarker it)" using tryPeekBits_success [OF assms(1)] by simp
  have r: "readTimeUnit X (skipMarker it) = (skipMarker it)\<lparr>it_is := drop 8 (it_is (skipMarker it)), tu := c\<rparr>"
    using readTimeUnit_ok [OF hn assms(6), of X] assms(7,8)
    by (cases "skipMarker it") (simp add: Let_def)
  show ?thesis
    using r tryReadMarker_TimeUnit [OF assms(1) [unfolded markerBits_def] assms(2-5), of X]
    by (simp add: skipMarker_def markerBits_def split: prod.splits)
qed

theorem invalid_time_unit_is_stored_witness:
  "tryPeekBits it_invalid_unit (markerBits it_invalid_unit) = (255, True) \<and>
   \<not> IsValid X0 255 \<and> tu it_invalid_unit = 1 \<and>
   tu (readTimeUnit X0 (skipMarker it_invalid_unit)) = 255 \<and>
   tuChanged (readTimeUnit X0 (skipMarker it_invalid_unit)) = tuChanged it_invalid_unit \<and>
   err (readTimeUnit X0 (skipMarker it_invalid_unit)) = None"
proof -
  let ?it = it_invalid_unit
  have h1: "tryPeekBits ?it (markerBits ?it) = (255, True)" unfolding evaluated by code_simp
  have h2: "drop_bit (uint_of (mesNumValueBits (mes ?it))) 255 = mesOpcode (mes ?it)" unfolding evaluated by code_simp
  have h3: "255 AND (push_bit (uint_of (mesNumValueBits (mes ?it))) 1 - 1) \<noteq> EndOfStream (mes ?it)"
    unfolding evaluated by code_simp
  have h4: "255 AND (push_bit (uint_of (mesNumValueBits (mes ?it))) 1 - 1) \<noteq> Annotation (mes ?it)"
    unfolding evaluated by code_simp
  have h5: "255 AND (push_bit (uint_of (mesNumValueBits (mes ?it))) 1 - 1) = TimeUnit (mes ?it)"
    unfolding evaluated by code_simp
  have h6: "8 \<le> length (it_is (skipMarker ?it))" unfolding evaluated by code_simp
  have h7: "(255 :: Unit) = ucast (bitsToWord 0 (take 8 (it_is (skipMarker ?it))))" unfolding evaluated by code_simp
  have h8: "\<not> IsValid X0 255" unfolding evaluated by code_simp
  have h9: "tu ?it = 1" unfolding evaluated by code_simp
  have h10: "err (skipMarker ?it) = None" unfolding evaluated by code_simp
  note th = invalid_time_unit_is_stored [OF h1 h2 h3 h4 h5 h6 h7 h8]
  have "readTimeUnit X0 (skipMarker ?it) =
          (skipMarker ?it)\<lparr>it_is := drop 8 (it_is (skipMarker ?it)), tu := 255\<rparr>"
    using th by (rule conjunct1)
  then show ?thesis using h1 h8 h9 h10 by simp
qed

text \<open>Claim C2 says that the table of schemes is consulted only when tuChanged is not set.
  The code looks the scheme up in \<^verbatim>\<open>readMarkerOrDeltaOfDelta\<close>, before \<^verbatim>\<open>readDeltaOfDelta\<close>
  tests tuChanged. On \<open>stream_unit_ms\<close> with no scheme for the millisecond, the second call
  of Next sets tuChanged and fails with SchemeMissing; the 64 bits of the delta-of-delta and
  the byte after them are still in the stream.\<close>
theorem scheme_lookup_counterexample:
  "IsValid X0 2 \<and> tu it_unit_ms = 1 \<and> length (it_is it_unit_ms) = 88 \<and>
   fst (Next X0 it_unit_ms) = False \<and>
   tuChanged (snd (Next X0 it_unit_ms)) \<and> tu (snd (Next X0 it_unit_ms)) = 2 \<and>
   Err (snd (Next X0 it_unit_ms)) = Some (SchemeMissing 2) \<and>
   length (it_is (snd (Next X0 it_unit_ms))) = 72"
proof -
  have b: "IsValid X0 2 \<and> tu it_unit_ms = 1 \<and> length (it_is it_unit_ms) = 88"
    unfolding evaluated by code_simp
  have o: "observe (snd (Next X0 it_unit_ms)) =
      (newIStream [0, 0, 0, 0, 0x1D, 0xCD, 0x65, 0x00, 0x00], unixToInternal + 11000000000, 0,
       0x3FF8000000000000, 0, False, Some (SchemeMissing 2), None, 2, True, False)"
    unfolding evaluated by code_simp
  have l: "length (newIStream [0, 0, 0, 0, 0x1D, 0xCD, 0x65, 0x00, 0x00]) = 72"
    by (simp add: newIStream_def byteBits_def)
  have f: "fst (Next X0 it_unit_ms) = False"
    unfolding evaluated by code_simp
  show ?thesis using b o f l by (simp add: observe_def Err_def)
qed

text \<open>Claim C2, amended. Whenever no marker is read, the scheme of the active unit is looked
  up first: with no scheme registered the read fails with SchemeMissing and consumes nothing,
  whether or not tuChanged is set; with a scheme registered and tuChanged set, the
  delta-of-delta is exactly the next 64 bits, whatever the buckets of the scheme; with a
  scheme registered and tuChanged not set, the buckets of the scheme decide.\<close>
theorem scheme_lookup_precedes_tuChanged:
  assumes "\<not> snd (fst (tryReadMarker X it))"
  shows "(tess it (tu it) = None \<longrightarrow>
            readMarkerOrDeltaOfDelta X it = (0, it\<lparr>err := Some (SchemeMissing (tu it))\<rparr>)) \<and>
         (tess it (tu it) = Some tes \<and> tuChanged it \<longrightarrow>
            readMarkerOrDeltaOfDelta X it = readBits it 64) \<and>
         (tess it (tu it) = Some tes \<and> \<not> tuChanged it \<longrightarrow>
            readMarkerOrDeltaOfDelta X it = readDeltaOfDelta X it tes)"
  using readMarkerOrDeltaOfDelta_no_marker [OF tryReadMarker_fails [OF assms]]
  by (auto simp: readDeltaOfDelta_def split: prod.splits)

theorem scheme_lookup_precedes_tuChanged_witness:
  "\<not> snd (fst (tryReadMarker X0 (readTimeUnit X0 (skipMarker it_unit_ms)))) \<and>
   tuChanged (readTimeUnit X0 (skipMarker it_unit_ms)) \<and>
   tess (readTimeUnit X0 (skipMarker it_unit_ms))
     (tu (readTimeUnit X0 (skipMarker it_unit_ms))) = None \<and>
   readMarkerOrDeltaOfDelta X0 (readTimeUnit X0 (skipMarker it_unit_ms)) =
     (0, (readTimeUnit X0 (skipMarker it_unit_ms))
           \<lparr>err := Some (SchemeMissing (tu (readTimeUnit X0 (skipMarker it_unit_ms))))\<rparr>) \<and>
   \<not> snd (fst (tryReadMarker X0 (readTimeUnit X0 (skipMarker it_ms)))) \<and>
   tuChanged (readTimeUnit X0 (skipMarker it_ms)) \<and>
   tess (readTimeUnit X0 (skipMarker it_ms)) (tu (readTimeUnit X0 (skipMarker it_ms))) =
     Some tes0 \<and>
   readMarkerOrDeltaOfDelta X0 (readTimeUnit X0 (skipMarker it_ms)) =
     readBits (readTimeUnit X0 (skipMarker it_ms)) 64 \<and>
   fst (readBits (readTimeUnit X0 (skipMarker it_ms)) 64) = 500000000 \<and>
   \<not> snd (fst (tryReadMarker X0 it_short)) \<and> \<not> tuChanged it_short \<and>
   tess it_short (tu it_short) = Some tes0 \<and>
   readMarkerOrDeltaOfDelta X0 it_short = readDeltaOfDelta X0 it_short tes0"
proof -
  let ?a = "readTimeUnit X0 (skipMarker it_unit_ms)" and ?b = "readTimeUnit X0 (skipMarker it_ms)"
  have a1: "\<not> snd (fst (tryReadMarker X0 ?a))" unfolding evaluated by code_simp
  have a2: "tuChanged ?a" unfolding evaluated by code_simp
  have a3: "tess ?a (tu ?a) = None" unfolding evaluated by code_simp
  have b1: "\<not> snd (fst (tryReadMarker X0 ?b))" unfolding evaluated by code_simp
  have b2: "tuChanged ?b" unfolding evaluated by code_simp
  have b3: "tess ?b (tu ?b) = Some tes0" unfolding evaluated by code_simp
  have b4: "fst (readBits ?b 64) = 500000000" unfolding evaluated by code_simp
  have c1: "\<not> snd (fst (tryReadMarker X0 it_short))" by code_simp
  have c2: "\<not> tuChanged it_short" by code_simp
  have c3: "tess it_short (tu it_short) = Some tes0" by code_simp
  show ?thesis
    using scheme_lookup_precedes_tuChanged [OF a1, of tes0]
      scheme_lookup_precedes_tuChanged [OF b1, of tes0]
      scheme_lookup_precedes_tuChanged [OF c1, of tes0]
      a1 a2 a3 b1 b2 b3 b4 c1 c2 c3
    by blast
qed

text \<open>Claim C3. For every call of Next in which a TimeUnit marker changes the active unit:
  the timestamp read of the call, after zero or more markers, stands before a TimeUnit
  marker whose code is a valid unit other than the active one. Then the call returns with
  tuChanged set and dt = 0. And where the read goes on to a delta-of-delta, in a state j
  reached from behind the marker and its code through zero or more further markers, with no
  marker before it and a scheme registered for its unit, the delta-of-delta of the call is
  the next 64 bits as a signed count of nanoseconds: the sign extension to 64 bits is the
  value itself, no unit is multiplied in, and the call moves t by dt plus that count.\<close>
theorem time_unit_change:
  assumes "markers X (timestampEntry X it) k" and "atTimeUnit k"
    and "IsValid X (ucast (fst (readBits (skipMarker k) 8)))"
    and "ucast (fst (readBits (skipMarker k) 8)) \<noteq> tu k"
  shows "tuChanged (snd (Next X it)) \<and> dt (snd (Next X it)) = 0 \<and>
         (\<forall>j. markers X (readTimeUnit X (skipMarker k)) j \<and> atDeltaOfDelta j \<and>
               tess j (tu j) \<noteq> None \<longrightarrow>
            readMarkerOrDeltaOfDelta X (timestampEntry X it) =
              (signExtend (fst (readBits j 64)) 64, snd (readBits j 64)) \<and>
            signExtend (fst (readBits j 64)) 64 = fst (readBits j 64) \<and>
            (hasNext j \<and> 64 \<le> length (it_is j) \<longrightarrow>
               fst (readBits j 64) = bitsToWord 0 (take 64 (it_is j))) \<and>
            t (snd (Next X it)) =
              Add (if IsZero (t it) then FromNormalizedTime (fst (readBits it 64)) else t it)
                  (dt it + fst (readBits j 64)))"
proof -
  let ?e = "timestampEntry X it"
  let ?u = "readTimeUnit X (skipMarker k)"
  let ?r = "readNextTimestamp X ?e"
  have hn: "hasNext it"
    using markers_hasNext [OF assms(1) atTimeUnit_read(1) [OF assms(2)]]
    by (rule timestampEntry_hasNext)
  have cu: "tuChanged ?u" using assms(3,4) by (intro readTimeUnit_changes) simp_all
  have rd: "readMarkerOrDeltaOfDelta X ?e = readMarkerOrDeltaOfDelta X ?u"
    using markers_read [OF assms(1), of] atTimeUnit_read(2) [OF assms(2), of X] by simp
  have cr: "tuChanged ?r"
    using readMarkerOrDeltaOfDelta_tuChanged [OF cu, of X] rd
    by (simp add: readNextTimestamp_fields)
  have e: "t ?e = t it" "dt ?e = dt it"
    using timestampEntry_fields(1) [of it X] by (simp_all add: kept_def)
  have c: "tuChanged (snd (Next X it))" "dt (snd (Next X it)) = 0"
    unfolding Next_entry [OF hn] Let_def using cr
    by (simp_all add: readNextValue_fields readFirstValue_fields)
  have tm: "t (snd (Next X it)) =
      Add (if IsZero (t it) then FromNormalizedTime (fst (readBits it 64)) else t it)
          (dt it + fst (readMarkerOrDeltaOfDelta X ?e))"
    unfolding Next_entry [OF hn] Let_def using e
    by (simp add: readNextValue_fields readFirstValue_fields readNextTimestamp_fields)
  have dod: "readMarkerOrDeltaOfDelta X ?e = readBits j 64"
    if j: "markers X ?u j" "atDeltaOfDelta j" "tess j (tu j) \<noteq> None" for j
  proof -
    have "tuChanged j" using j(1) cu by (rule markers_tuChanged)
    then have "readMarkerOrDeltaOfDelta X j = readBits j 64"
      using j(3) atDeltaOfDelta_read [OF j(2), of X]
      by (auto simp: readMarkerOrDeltaOfDelta_no_marker readDeltaOfDelta_def split: prod.splits)
    then show ?thesis using rd markers_read [OF j(1)] by simp
  qed
  show ?thesis using c tm dod by (auto simp: readBits_ok)
qed

theorem time_unit_change_witness:
  "markers X0 (timestampEntry X0 it_ms) (timestampEntry X0 it_ms) \<and>
   atTimeUnit (timestampEntry X0 it_ms) \<and>
   IsValid X0 (ucast (fst (readBits (skipMarker (timestampEntry X0 it_ms)) 8))) \<and>
   ucast (fst (readBits (skipMarker (timestampEntry X0 it_ms)) 8)) \<noteq> tu (timestampEntry X0 it_ms) \<and>
   tuChanged (snd (Next X0 it_ms)) \<and> dt (snd (Next X0 it_ms)) = 0 \<and> dt it_ms = 5000000000 \<and>
   markers X0 (readTimeUnit X0 (skipMarker (timestampEntry X0 it_ms)))
     (readTimeUnit X0 (skipMarker (timestampEntry X0 it_ms))) \<and>
   atDeltaOfDelta (readTimeUnit X0 (skipMarker (timestampEntry X0 it_ms))) \<and>
   tess (readTimeUnit X0 (skipMarker (timestampEntry X0 it_ms)))
     (tu (readTimeUnit X0 (skipMarker (timestampEntry X0 it_ms)))) \<noteq> None \<and>
   hasNext (readTimeUnit X0 (skipMarker (timestampEntry X0 it_ms))) \<and>
   64 \<le> length (it_is (readTimeUnit X0 (skipMarker (timestampEntry X0 it_ms)))) \<and>
   fst (readBits (readTimeUnit X0 (skipMarker (timestampEntry X0 it_ms))) 64) =
     bitsToWord 0 (take 64 (it_is (readTimeUnit X0 (skipMarker (timestampEntry X0 it_ms))))) \<and>
   readMarkerOrDeltaOfDelta X0 (timestampEntry X0 it_ms) =
     readBits (readTimeUnit X0 (skipMarker (timestampEntry X0 it_ms))) 64 \<and>
   fst (readBits (readTimeUnit X0 (skipMarker (timestampEntry X0 it_ms))) 64) = 500000000 \<and>
   t (snd (Next X0 it_ms)) = t it_ms + 5500000000"
proof -
  let ?e = "timestampEntry X0 it_ms"
  let ?u = "readTimeUnit X0 (skipMarker ?e)"
  have a1: "atTimeUnit ?e" unfolding evaluated by code_simp
  have a2: "IsValid X0 (ucast (fst (readBits (skipMarker ?e) 8)))" unfolding evaluated by code_simp
  have a3: "ucast (fst (readBits (skipMarker ?e) 8)) \<noteq> tu ?e" unfolding evaluated by code_simp
  have b1: "atDeltaOfDelta ?u" unfolding evaluated by code_simp
  have b2: "tess ?u (tu ?u) \<noteq> None" unfolding evaluated by code_simp
  have b3: "fst (readBits ?u 64) = 500000000" unfolding evaluated by code_simp
  have b4: "hasNext ?u" "64 \<le> length (it_is ?u)" unfolding evaluated by code_simp+
  have c1: "\<not> IsZero (t it_ms)" "dt it_ms = 5000000000"
    "Add (t it_ms) 5500000000 = t it_ms + 5500000000"
    unfolding evaluated by code_simp+
  note th = time_unit_change [OF markers.here a1 a2 a3]
  have d: "readMarkerOrDeltaOfDelta X0 ?e = readBits ?u 64 \<and>
           fst (readBits ?u 64) = bitsToWord 0 (take 64 (it_is ?u)) \<and>
           t (snd (Next X0 it_ms)) = Add (t it_ms) (dt it_ms + fst (readBits ?u 64))"
    using th b1 b2 b4 c1 markers.here [of X0 ?u] by (simp add: prod_eq_iff)
  show ?thesis using th a1 a2 a3 b1 b2 b3 b4 c1 d by (simp add: markers.here)
qed

subsection \<open>Markers that are none\<close>

text \<open>Claim C6. When the peeked bits carry the marker opcode but their low bits are none of
  the three marker values, or when the peek fails, \<^verbatim>\<open>tryReadMarker\<close> consumes nothing and
  reports no marker, and \<^verbatim>\<open>readMarkerOrDeltaOfDelta\<close> goes on to the scheme of the active unit
  and decodes the same bits as a delta-of-delta.\<close>
theorem unknown_marker_is_delta_of_delta:
  assumes "tryPeekBits it (markerBits it) = (v, ok)"
    and "\<not> ok \<or>
         (drop_bit (uint_of (mesNumValueBits (mes it))) v = mesOpcode (mes it) \<and>
          v AND (push_bit (uint_of (mesNumValueBits (mes it))) 1 - 1) \<noteq> EndOfStream (mes it) \<and>
          v AND (push_bit (uint_of (mesNumValueBits (mes it))) 1 - 1) \<noteq> Annotation (mes it) \<and>
          v AND (push_bit (uint_of (mesNumValueBits (mes it))) 1 - 1) \<noteq> TimeUnit (mes it))"
  shows "tryReadMarker X it = ((0, False), it) \<and>
         readMarkerOrDeltaOfDelta X it =
           (case tess it (tu it) of
              None \<Rightarrow> (0, it\<lparr>err := Some (SchemeMissing (tu it))\<rparr>)
            | Some tes \<Rightarrow> readDeltaOfDelta X it tes)"
proof -
  have "tryReadMarker X it = ((0, False), it)"
  proof (cases ok)
    case False
    then show ?thesis using assms(1) tryReadMarker_no_peek [of it X] by (simp add: markerBits_def)
  next
    case True
    then show ?thesis using assms tryReadMarker_no_marker [of it v X] by (simp add: markerBits_def)
  qed
  then show ?thesis by (simp add: readMarkerOrDeltaOfDelta_no_marker)
qed

theorem unknown_marker_is_delta_of_delta_witness:
  "tryPeekBits it_unknown (markerBits it_unknown) = (252, True) \<and>
   drop_bit (uint_of (mesNumValueBits (mes it_unknown))) 252 = mesOpcode (mes it_unknown) \<and>
   252 AND (push_bit (uint_of (mesNumValueBits (mes it_unknown))) 1 - 1) \<noteq> EndOfStream (mes it_unknown) \<and>
   252 AND (push_bit (uint_of (mesNumValueBits (mes it_unknown))) 1 - 1) \<noteq> Annotation (mes it_unknown) \<and>
   252 AND (push_bit (uint_of (mesNumValueBits (mes it_unknown))) 1 - 1) \<noteq> TimeUnit (mes it_unknown) \<and>
   tryReadMarker X0 it_unknown = ((0, False), it_unknown) \<and>
   tess it_unknown (tu it_unknown) = Some tes0 \<and>
   readMarkerOrDeltaOfDelta X0 it_unknown = readDeltaOfDelta X0 it_unknown tes0 \<and>
   sint (fst (readDeltaOfDelta X0 it_unknown tes0)) = - 256000000000 \<and>
   tryPeekBits it_short (markerBits it_short) = (0, False) \<and>
   tryReadMarker X0 it_short = ((0, False), it_short) \<and>
   tess it_short (tu it_short) = Some tes0 \<and>
   readMarkerOrDeltaOfDelta X0 it_short = readDeltaOfDelta X0 it_short tes0 \<and>
   fst (readDeltaOfDelta X0 it_short tes0) = 0"
proof -
  let ?m = "push_bit (uint_of (mesNumValueBits (mes it_unknown))) 1 - 1 :: uint64"
  have a1: "tryPeekBits it_unknown (markerBits it_unknown) = (252, True)" unfolding evaluated by code_simp
  have a2: "drop_bit (uint_of (mesNumValueBits (mes it_unknown))) 252 = mesOpcode (mes it_unknown)"
    unfolding evaluated by code_simp
  have a3: "252 AND ?m \<noteq> EndOfStream (mes it_unknown)" unfolding evaluated by code_simp
  have a4: "252 AND ?m \<noteq> Annotation (mes it_unknown)" unfolding evaluated by code_simp
  have a5: "252 AND ?m \<noteq> TimeUnit (mes it_unknown)" unfolding evaluated by code_simp
  have a6: "tess it_unknown (tu it_unknown) = Some tes0" unfolding evaluated by code_simp
  have a7: "sint (fst (readDeltaOfDelta X0 it_unknown tes0)) = - 256000000000" unfolding evaluated by code_simp
  have b1: "tryPeekBits it_short (markerBits it_short) = (0, False)" unfolding evaluated by code_simp
  have b6: "tess it_short (tu it_short) = Some tes0" unfolding evaluated by code_simp
  have b7: "fst (readDeltaOfDelta X0 it_short tes0) = 0" unfolding evaluated by code_simp
  have A: "tryReadMarker X0 it_unknown = ((0, False), it_unknown) \<and>
           readMarkerOrDeltaOfDelta X0 it_unknown = readDeltaOfDelta X0 it_unknown tes0"
    using unknown_marker_is_delta_of_delta [OF a1, of X0] a2 a3 a4 a5 a6 by simp
  have B: "tryReadMarker X0 it_short = ((0, False), it_short) \<and>
           readMarkerOrDeltaOfDelta X0 it_short = readDeltaOfDelta X0 it_short tes0"
    using unknown_marker_is_delta_of_delta [OF b1, of X0] b6 by simp
  show ?thesis using A B a1 a2 a3 a4 a5 a6 a7 b1 b6 b7 by blast
qed

subsection \<open>Annotations\<close>



subsection \<open>Values\<close>

text \<open>The three branches of \<^verbatim>\<open>readXOR\<close> on a stream that holds the bits.\<close>
lemma readXOR_branches:
  assumes "hasNext it"
  shows "(it_is it = False # s \<longrightarrow> readXOR X it = (0, it\<lparr>it_is := s\<rparr>)) \<and>
         (it_is it = True # False # s \<and> leadingAndTrailingZeros X (it_xor it) = (pl, pt) \<and>
          nat (64 - pl - pt) \<le> length s \<longrightarrow>
            readXOR X it =
              (push_bit (uint_of pt) (bitsToWord 0 (take (nat (64 - pl - pt)) s)),
               it\<lparr>it_is := drop (nat (64 - pl - pt)) s\<rparr>)) \<and>
         (it_is it = True # True # s \<and> 12 \<le> length s \<and>
          nl = sint (bitsToWord 0 (take 6 s)) \<and> nm = sint (bitsToWord 0 (take 6 (drop 6 s))) + 1 \<and>
          nat nm \<le> length s - 12 \<longrightarrow>
            readXOR X it =
              (push_bit (uint_of (64 - nl - nm)) (bitsToWord 0 (take (nat nm) (drop 12 s))),
               it\<lparr>it_is := drop (12 + nat nm) s\<rparr>)) \<and>
         readNextValue X it =
           (snd (readXOR X it))\<lparr>it_xor := fst (readXOR X it), vb := vb it XOR fst (readXOR X it)\<rparr> \<and>
         Current it = ((t it, vb it), tu it, ant it)"
proof -
  have zero: "readXOR X it = (0, it\<lparr>it_is := s\<rparr>)" if "it_is it = False # s"
    using assms that readBits_ok [of it 1]
    by (simp add: readXOR_def opcodeZeroValueXOR_def)
  have b1: "readBits it 1 = (1, it\<lparr>it_is := b # s\<rparr>)" if "it_is it = True # b # s" for b
    using assms that readBits_ok [of it 1] by simp
  have b2: "readBits (it\<lparr>it_is := b # s\<rparr>) 1 = (if b then 1 else 0, it\<lparr>it_is := s\<rparr>)" for b
    using assms readBits_ok [of "it\<lparr>it_is := b # s\<rparr>" 1] by simp
  have contained: "readXOR X it =
              (push_bit (uint_of pt) (bitsToWord 0 (take (nat (64 - pl - pt)) s)),
               it\<lparr>it_is := drop (nat (64 - pl - pt)) s\<rparr>)"
    if "it_is it = True # False # s" "leadingAndTrailingZeros X (it_xor it) = (pl, pt)"
       "nat (64 - pl - pt) \<le> length s"
    using assms that b1 [of False] b2 [of False] readBits_ok [of "it\<lparr>it_is := s\<rparr>" "64 - pl - pt"]
    by (simp add: readXOR_def opcodeZeroValueXOR_def opcodeContainedValueXOR_def)
  have window: "readXOR X it =
              (push_bit (uint_of (64 - nl - nm)) (bitsToWord 0 (take (nat nm) (drop 12 s))),
               it\<lparr>it_is := drop (12 + nat nm) s\<rparr>)"
    if "it_is it = True # True # s" "12 \<le> length s"
       "nl = sint (bitsToWord 0 (take 6 s))" "nm = sint (bitsToWord 0 (take 6 (drop 6 s))) + 1"
       "nat nm \<le> length s - 12"
  proof -
    have r1: "readBits (it\<lparr>it_is := s\<rparr>) 6 = (bitsToWord 0 (take 6 s), it\<lparr>it_is := drop 6 s\<rparr>)"
      using assms that(2) readBits_ok [of "it\<lparr>it_is := s\<rparr>" 6] by simp
    have r2: "readBits (it\<lparr>it_is := drop 6 s\<rparr>) 6 =
                (bitsToWord 0 (take 6 (drop 6 s)), it\<lparr>it_is := drop 12 s\<rparr>)"
      using assms that(2) readBits_ok [of "it\<lparr>it_is := drop 6 s\<rparr>" 6] by simp
    have r3: "readBits (it\<lparr>it_is := drop 12 s\<rparr>) nm =
                (bitsToWord 0 (take (nat nm) (drop 12 s)), it\<lparr>it_is := drop (12 + nat nm) s\<rparr>)"
      using assms that(5) readBits_ok [of "it\<lparr>it_is := drop 12 s\<rparr>" nm] by (simp add: add.commute)
    show ?thesis
      using that(1,3,4) b1 [of True] b2 [of True] r1 r2 r3
      by (simp add: readXOR_def opcodeZeroValueXOR_def opcodeContainedValueXOR_def Let_def)
  qed
  have nv: "readNextValue X it =
           (snd (readXOR X it))\<lparr>it_xor := fst (readXOR X it), vb := vb it XOR fst (readXOR X it)\<rparr>"
    using streamOnly_fields(1) [OF readXOR_streamOnly [of it X]]
    by (cases "readXOR X it") (simp add: readNextValue_def kept_def)
  show ?thesis using zero contained window nv unfolding Current_def by blast
qed

text \<open>Claim C8. The three branches of the value decoder, on a stream that holds the bits: a
  first bit 0 gives the XOR 0; the prefix 10 reads 64 - leading - trailing bits, counted on
  the stored xor, and shifts them left by trailing; the prefix 11 reads 6 bits for the
  leading zeros, 6 bits for the number of meaningful bits less one, then the meaningful bits,
  and shifts them left by 64 - leading - meaningful. The result becomes the stored xor and is
  XORed into vb, which is what Current returns. The shift count passes through Go's
  conversion to \<^verbatim>\<open>uint\<close>.\<close>
theorem value_decoding:
  assumes "hasNext it"
  shows "(it_is it = False # s \<longrightarrow> readXOR X it = (0, it\<lparr>it_is := s\<rparr>)) \<and>
         (it_is it = True # False # s \<and> leadingAndTrailingZeros X (it_xor it) = (pl, pt) \<and>
          nat (64 - pl - pt) \<le> length s \<longrightarrow>
            readXOR X it =
              (push_bit (uint_of pt) (bitsToWord 0 (take (nat (64 - pl - pt)) s)),
               it\<lparr>it_is := drop (nat (64 - pl - pt)) s\<rparr>)) \<and>
         (it_is it = True # True # s \<and> 12 \<le> length s \<and>
          nl = sint (bitsToWord 0 (take 6 s)) \<and> nm = sint (bitsToWord 0 (take 6 (drop 6 s))) + 1 \<and>
          nat nm \<le> length s - 12 \<longrightarrow>
            readXOR X it =
              (push_bit (uint_of (64 - nl - nm)) (bitsToWord 0 (take (nat nm) (drop 12 s))),
               it\<lparr>it_is := drop (12 + nat nm) s\<rparr>) \<and>
            0 \<le> nl \<and> nl < 64 \<and> 1 \<le> nm \<and> nm \<le> 64 \<and>
            (if nl + nm \<le> 64 then uint_of (64 - nl - nm) = nat (64 - nl - nm)
             else fst (readXOR X it) = 0)) \<and>
         readNextValue X it =
           (snd (readXOR X it))\<lparr>it_xor := fst (readXOR X it), vb := vb it XOR fst (readXOR X it)\<rparr> \<and>
         Current it = ((t it, vb it), tu it, ant it)"
proof -
  have rng: "0 \<le> nl \<and> nl < 64 \<and> 1 \<le> nm \<and> nm \<le> 64"
    if "12 \<le> length s" "nl = sint (bitsToWord 0 (take 6 s))"
       "nm = sint (bitsToWord 0 (take 6 (drop 6 s))) + 1"
    using six_bits [of "take 6 s"] six_bits [of "take 6 (drop 6 s)"] that by simp
  have sh: "if nl + nm \<le> 64 then uint_of (64 - nl - nm) = nat (64 - nl - nm)
            else push_bit (uint_of (64 - nl - nm)) (w :: uint64) = 0"
    if "0 \<le> nl \<and> nl < 64 \<and> 1 \<le> nm \<and> nm \<le> 64" for w
  proof (cases "nl + nm \<le> 64")
    case True
    then have "0 \<le> 64 - nl - nm" "64 - nl - nm < 2 ^ 64" using that by simp_all
    then have "uint_of (64 - nl - nm) = nat (64 - nl - nm)" by (rule uint_of_small)
    then show ?thesis using True by simp
  next
    case False
    then have "64 \<le> uint_of (64 - nl - nm)" using that by (intro uint_of_negative) simp_all
    then show ?thesis using False by (simp add: push_bit_out)
  qed
  note vd = readXOR_branches [OF assms, of s X pl pt nl nm]
  have win: "readXOR X it =
              (push_bit (uint_of (64 - nl - nm)) (bitsToWord 0 (take (nat nm) (drop 12 s))),
               it\<lparr>it_is := drop (12 + nat nm) s\<rparr>) \<and>
            0 \<le> nl \<and> nl < 64 \<and> 1 \<le> nm \<and> nm \<le> 64 \<and>
            (if nl + nm \<le> 64 then uint_of (64 - nl - nm) = nat (64 - nl - nm)
             else fst (readXOR X it) = 0)"
    if h: "it_is it = True # True # s \<and> 12 \<le> length s \<and>
          nl = sint (bitsToWord 0 (take 6 s)) \<and> nm = sint (bitsToWord 0 (take 6 (drop 6 s))) + 1 \<and>
          nat nm \<le> length s - 12"
  proof -
    have r: "readXOR X it =
              (push_bit (uint_of (64 - nl - nm)) (bitsToWord 0 (take (nat nm) (drop 12 s))),
               it\<lparr>it_is := drop (12 + nat nm) s\<rparr>)"
      using vd h by blast
    have g: "0 \<le> nl \<and> nl < 64 \<and> 1 \<le> nm \<and> nm \<le> 64" using rng h by blast
    show ?thesis using r g sh [OF g, of "bitsToWord 0 (take (nat nm) (drop 12 s))"]
      by (auto split: if_splits)
  qed
  show ?thesis using vd win by blast
qed

theorem value_decoding_witness:
  "hasNext (it_value [0x00]) \<and> it_is (it_value [0x00]) = False # replicate 7 False \<and>
   fst (readXOR X0 (it_value [0x00])) = 0 \<and>
   vb (readNextValue X0 (it_value [0x00])) = 0x3FF8000000000000 \<and>
   hasNext (it_value [0xA0]) \<and>
   it_is (it_value [0xA0]) = True # False # [True, False, False, False, False, False] \<and>
   leadingAndTrailingZeros X0 (it_xor (it_value [0xA0])) = (12, 51) \<and>
   fst (readXOR X0 (it_value [0xA0])) = 0x0008000000000000 \<and>
   vb (readNextValue X0 (it_value [0xA0])) = 0x3FF0000000000000 \<and>
   it_xor (readNextValue X0 (it_value [0xA0])) = 0x0008000000000000 \<and>
   hasNext (it_value [0xCC, 0x02]) \<and>
   it_is (it_value [0xCC, 0x02]) = True # True # drop 2 (it_is (it_value [0xCC, 0x02])) \<and>
   sint (bitsToWord 0 (take 6 (drop 2 (it_is (it_value [0xCC, 0x02]))))) = 12 \<and>
   sint (bitsToWord 0 (take 6 (drop 6 (drop 2 (it_is (it_value [0xCC, 0x02])))))) + 1 = 1 \<and>
   fst (readXOR X0 (it_value [0xCC, 0x02])) = 0x0008000000000000 \<and>
   length (it_is (snd (readXOR X0 (it_value [0xCC, 0x02])))) = 1"
proof -
  let ?z = "it_value [0x00]" and ?c = "it_value [0xA0]" and ?w = "it_value [0xCC, 0x02]"
  let ?sw = "drop 2 (it_is ?w)"
  have z1: "hasNext ?z" unfolding evaluated by code_simp
  have z2: "it_is ?z = False # replicate 7 False" unfolding evaluated by code_simp
  have z3: "vb ?z = 0x3FF8000000000000" unfolding evaluated by code_simp
  have c1: "hasNext ?c" unfolding evaluated by code_simp
  have c2: "it_is ?c = True # False # [True, False, False, False, False, False]" unfolding evaluated by code_simp
  have c3: "leadingAndTrailingZeros X0 (it_xor ?c) = (12, 51)" unfolding evaluated by code_simp
  have c4: "vb ?c = 0x3FF8000000000000" unfolding evaluated by code_simp
  have w1: "hasNext ?w" unfolding evaluated by code_simp
  have w2: "it_is ?w = True # True # ?sw" unfolding evaluated by code_simp
  have w3: "12 \<le> length ?sw" unfolding evaluated by code_simp
  have w4: "sint (bitsToWord 0 (take 6 ?sw)) = 12" unfolding evaluated by code_simp
  have w5: "sint (bitsToWord 0 (take 6 (drop 6 ?sw))) + 1 = 1" unfolding evaluated by code_simp
  have w6: "length ?sw = 14" unfolding evaluated by code_simp
  have w7: "bitsToWord 0 (take 1 (drop 12 ?sw)) = 1" unfolding evaluated by code_simp
  have u: "uint_of 51 = 51" by (simp add: uint_of_def)
  have Z: "readXOR X0 ?z = (0, ?z\<lparr>it_is := replicate 7 False\<rparr>)"
    using value_decoding [OF z1, of "replicate 7 False" X0] z2 by blast
  have Zn: "readNextValue X0 ?z =
      (snd (readXOR X0 ?z))\<lparr>it_xor := fst (readXOR X0 ?z), vb := vb ?z XOR fst (readXOR X0 ?z)\<rparr>"
    using value_decoding [OF z1, of "replicate 7 False" X0] by blast
  have C: "readXOR X0 ?c = (0x0008000000000000, ?c\<lparr>it_is := [False, False, False, False, False]\<rparr>)"
    using value_decoding [OF c1, of "[True, False, False, False, False, False]" X0 12 51] c2 c3 u
    by simp
  have Cn: "readNextValue X0 ?c =
      (snd (readXOR X0 ?c))\<lparr>it_xor := fst (readXOR X0 ?c), vb := vb ?c XOR fst (readXOR X0 ?c)\<rparr>"
    using value_decoding [OF c1, of "[]" X0] by blast
  have W: "readXOR X0 ?w = (0x0008000000000000, ?w\<lparr>it_is := drop 13 ?sw\<rparr>)"
    using value_decoding [OF w1, of ?sw X0 0 0 12 1] w2 w3 w4 w5 w6 w7 u by simp
  show ?thesis
    unfolding Zn Cn Z C W using z1 z2 z3 c1 c2 c3 c4 w1 w2 w4 w5 w6 by simp
qed

subsection \<open>Reset\<close>

text \<open>Claim C9. After \<^verbatim>\<open>Reset\<close> the iterator decodes as a new iterator on the same reader
  with the same options does: the results of Next, Current and Err agree call by call, and
  every field the caller can observe has the value of a new iterator. The iterator must have
  been built by \<^verbatim>\<open>NewReaderIterator\<close> (its \<open>tess\<close> and \<open>mes\<close> are those of its options, which
  Next preserves), and the equality of the unit needs \<^verbatim>\<open>xtime.None\<close> to be the zero value
  of the type.\<close>
theorem reset_is_new:
  assumes "tess it = GetTimeEncodingSchemes (opts it)"
    and "mes it = GetMarkerEncodingScheme (opts it)"
  shows "(\<forall>n. decode X n (Reset X it r) = decode X n (NewReaderIterator r (opts it))) \<and>
         Err (Reset X it r) = Err (NewReaderIterator r (opts it)) \<and>
         (xtime_None X = 0 \<longrightarrow>
            Reset X it r = (NewReaderIterator r (opts it))\<lparr>tuChanged := tuChanged it\<rparr> \<and>
            Current (Reset X it r) = Current (NewReaderIterator r (opts it)))"
proof -
  let ?new = "NewReaderIterator r (opts it)"
  have e: "Reset X it r = ?new\<lparr>tuChanged := tuChanged it, tu := xtime_None X\<rparr>"
    using assms by (cases it) (simp add: Reset_def NewReaderIterator_def istream_Reset_def newIStream_def)
  have z: "IsZero (t ?new)" by (simp add: NewReaderIterator_def IsZero_def)
  have d: "decode X n (Reset X it r) = decode X n ?new" for n
    unfolding e by (rule decode_first_irrelevant [OF hasNext_NewReaderIterator z])
  have f: "Reset X it r = ?new\<lparr>tuChanged := tuChanged it\<rparr>" if "xtime_None X = 0"
    unfolding e using that by (simp add: NewReaderIterator_def)
  have g: "Err (Reset X it r) = Err ?new" unfolding e by (simp add: Err_def)
  have c: "Current (Reset X it r) = Current ?new" if "xtime_None X = 0"
    unfolding f [OF that] by (simp add: Current_def)
  show ?thesis using d f g c by blast
qed

theorem reset_is_new_witness:
  "tess it_two = GetTimeEncodingSchemes (opts it_two) \<and>
   mes it_two = GetMarkerEncodingScheme (opts it_two) \<and>
   xtime_None X0 = 0 \<and> dt it_two = 5000000000 \<and>
   decode X0 3 (Reset X0 it_two stream_ann) =
     decode X0 3 (NewReaderIterator stream_ann opts0) \<and>
   Current (Reset X0 it_two stream_ann) =
     Current (NewReaderIterator stream_ann opts0)"
proof -
  let ?i = "it_two"
  have o: "opts ?i = opts0" "tess ?i = GetTimeEncodingSchemes opts0"
    "mes ?i = GetMarkerEncodingScheme opts0"
    using Next_config [of X0 "NewReaderIterator stream_two opts0"]
    by (simp_all add: it_two_def NewReaderIterator_def)
  have h1: "tess ?i = GetTimeEncodingSchemes (opts ?i)" using o by simp
  have h2: "mes ?i = GetMarkerEncodingScheme (opts ?i)" using o by simp
  have h3: "xtime_None X0 = 0" by (simp add: X0_def)
  have h4: "dt ?i = 5000000000" unfolding evaluated by code_simp
  note th = reset_is_new [OF h1 h2, of X0 stream_ann, unfolded o(1)]
  have d: "decode X0 3 (Reset X0 ?i stream_ann) = decode X0 3 (NewReaderIterator stream_ann opts0)"
    using th by blast
  have c: "Current (Reset X0 ?i stream_ann) = Current (NewReaderIterator stream_ann opts0)"
    using th h3 by blast
  show ?thesis using d c h1 h2 h3 h4 by blast
qed

end
